theory Spec2Isabelle
  imports Main "HOL-Library.List_Lexorder"
begin

section \<open>JavaScript strings\<close>

text \<open>
  A JavaScript string is a sequence of UTF-16 code units. None of the regular
  expressions of the program carries the \<open>u\<close> flag and \<open>substring\<close> counts code
  units, so a string is modelled as the list of its code units, each a natural
  number below 65536. \<open>lit\<close> turns an ASCII literal into such a list.
\<close>

type_synonym jsstring = "nat list"

definition lit :: "string \<Rightarrow> jsstring" where
  "lit s = map of_char s"

text \<open>\<open>s.endsWith(suffix)\<close>\<close>

definition endsWith :: "jsstring \<Rightarrow> jsstring \<Rightarrow> bool" where
  "endsWith s suffix =
     (length suffix \<le> length s \<and> drop (length s - length suffix) s = suffix)"

text \<open>
  The class \<open>\s\<close> of a regular expression, which is also the white space that
  \<open>parseInt\<close> skips: tab, line feed, vertical tab, form feed, carriage return,
  space, no-break space, U+1680, U+2000 to U+200A, U+2028, U+2029, U+202F, U+205F,
  U+3000 and U+FEFF.
\<close>

definition isSpace :: "nat \<Rightarrow> bool" where
  "isSpace c =
     ((9 \<le> c \<and> c \<le> 13) \<or> c = 32 \<or> c = 160 \<or> c = 5760 \<or> (8192 \<le> c \<and> c \<le> 8202)
      \<or> c = 8232 \<or> c = 8233 \<or> c = 8239 \<or> c = 8287 \<or> c = 12288 \<or> c = 65279)"

subsection \<open>Global regular-expression replacements\<close>

text \<open>\<open>s.replace(/[class]/g, '')\<close>: every code unit of the class is dropped.\<close>

definition removeAll :: "(nat \<Rightarrow> bool) \<Rightarrow> jsstring \<Rightarrow> jsstring" where
  "removeAll p s = filter (\<lambda>c. \<not> p c) s"

text \<open>\<open>s.replace(/[class]/g, r)\<close>: every code unit of the class becomes \<open>r\<close>.\<close>

definition replaceEach :: "(nat \<Rightarrow> bool) \<Rightarrow> nat \<Rightarrow> jsstring \<Rightarrow> jsstring" where
  "replaceEach p r s = map (\<lambda>c. if p c then r else c) s"

text \<open>
  \<open>s.replace(/[class]+/g, r)\<close>: the scan goes from left to right, the match at a
  position is the longest run of the class that starts there, and it becomes one
  \<open>r\<close>.
\<close>

function replaceRuns :: "(nat \<Rightarrow> bool) \<Rightarrow> nat \<Rightarrow> jsstring \<Rightarrow> jsstring" where
  "replaceRuns p r [] = []"
| "replaceRuns p r (c # cs) =
     (if p c then r # replaceRuns p r (dropWhile p cs) else c # replaceRuns p r cs)"
  by pat_completeness auto
termination
  by (relation "measure (\<lambda>(p, r, s). length s)")
     (auto simp: less_Suc_eq_le length_dropWhile_le)

text \<open>
  \<open>s.replace(/[class]{2,}/g, r)\<close>: only a run of two or more is a match; a single
  member of the class stays as it is.
\<close>

function replaceRuns2 :: "(nat \<Rightarrow> bool) \<Rightarrow> nat \<Rightarrow> jsstring \<Rightarrow> jsstring" where
  "replaceRuns2 p r (c # d # cs) =
     (if p c \<and> p d then r # replaceRuns2 p r (dropWhile p cs)
      else c # replaceRuns2 p r (d # cs))"
| "replaceRuns2 p r [c] = [c]"
| "replaceRuns2 p r [] = []"
  by pat_completeness auto
termination
  by (relation "measure (\<lambda>(p, r, s). length s)")
     (auto simp: less_Suc_eq_le intro: le_trans [OF length_dropWhile_le])

text \<open>
  \<open>s.replace(/_-|-_/g, '-')\<close>: a match consumes both of its code units, so the scan
  resumes after the pair and the pairs it finds never overlap.
\<close>

definition underscore :: nat where "underscore = 95"
definition dash :: nat where "dash = 45"

fun replacePairs :: "jsstring \<Rightarrow> jsstring" where
  "replacePairs (a # b # cs) =
     (if (a = underscore \<and> b = dash) \<or> (a = dash \<and> b = underscore)
      then dash # replacePairs cs
      else a # replacePairs (b # cs))"
| "replacePairs [a] = [a]"
| "replacePairs [] = []"

text \<open>
  \<open>s.replace(/^[class]+|[class]+$/g, '')\<close>: the first alternative takes the longest
  run at the start; the second matches at the leftmost position from which a run
  reaches the end of the string, which is the longest run at the end.
\<close>

definition trimEnds :: "(nat \<Rightarrow> bool) \<Rightarrow> jsstring \<Rightarrow> jsstring" where
  "trimEnds p s = rev (dropWhile p (rev (dropWhile p s)))"

subsection \<open>decodeURIComponent\<close>

text \<open>
  The built-in of the language, after the Decode operation of ECMA-262 with an empty
  reserved set. \<open>None\<close> is the URIError it throws on a malformed escape or on
  octets that are not the UTF-8 encoding of a code point.
\<close>

definition hexval :: "nat \<Rightarrow> nat option" where
  "hexval c =
     (if 48 \<le> c \<and> c \<le> 57 then Some (c - 48)
      else if 65 \<le> c \<and> c \<le> 70 then Some (c - 55)
      else if 97 \<le> c \<and> c \<le> 102 then Some (c - 87)
      else None)"

fun pctOctet :: "jsstring \<Rightarrow> (nat \<times> jsstring) option" where
  "pctOctet (p # h # l # rest) =
     (if p = 37 then
        (case (hexval h, hexval l) of
           (Some a, Some b) \<Rightarrow> Some (16 * a + b, rest)
         | _ \<Rightarrow> None)
      else None)"
| "pctOctet _ = None"

fun contOctets :: "nat \<Rightarrow> jsstring \<Rightarrow> (nat list \<times> jsstring) option" where
  "contOctets 0 s = Some ([], s)"
| "contOctets (Suc n) s =
     (case pctOctet s of
        None \<Rightarrow> None
      | Some (b, rest) \<Rightarrow>
          (if 128 \<le> b \<and> b < 192 then
             (case contOctets n rest of
                None \<Rightarrow> None
              | Some (bs, rest') \<Rightarrow> Some (b # bs, rest'))
           else None))"

text \<open>The number of octets that the leading octet of a sequence announces.\<close>

definition leadingOnes :: "nat \<Rightarrow> nat" where
  "leadingOnes b =
     (if b < 128 then 0 else if b < 192 then 1 else if b < 224 then 2
      else if b < 240 then 3 else if b < 248 then 4 else 5)"

text \<open>
  The code point of a well-formed sequence: the shortest encoding only, no
  surrogate, nothing above U+10FFFF.
\<close>

definition utf8CodePoint :: "nat list \<Rightarrow> nat option" where
  "utf8CodePoint bs =
     (case bs of
        [b0, b1] \<Rightarrow>
          (let v = (b0 - 192) * 64 + (b1 - 128) in
           if 128 \<le> v then Some v else None)
      | [b0, b1, b2] \<Rightarrow>
          (let v = (b0 - 224) * 4096 + (b1 - 128) * 64 + (b2 - 128) in
           if 2048 \<le> v \<and> \<not> (55296 \<le> v \<and> v \<le> 57343) then Some v else None)
      | [b0, b1, b2, b3] \<Rightarrow>
          (let v = (b0 - 240) * 262144 + (b1 - 128) * 4096 + (b2 - 128) * 64 + (b3 - 128) in
           if 65536 \<le> v \<and> v \<le> 1114111 then Some v else None)
      | _ \<Rightarrow> None)"

definition utf16Encode :: "nat \<Rightarrow> jsstring" where
  "utf16Encode v =
     (if v < 65536 then [v]
      else [55296 + (v - 65536) div 1024, 56320 + (v - 65536) mod 1024])"

lemma pctOctet_shorter: "pctOctet s = Some (b, rest) \<Longrightarrow> length rest < length s"
  by (induction s rule: pctOctet.induct) (auto split: if_splits option.splits)

lemma contOctets_shorter: "contOctets n s = Some (bs, rest) \<Longrightarrow> length rest \<le> length s"
proof (induction n arbitrary: s bs rest)
  case 0
  then show ?case by simp
next
  case (Suc n)
  from Suc.prems obtain b r bs' where p: "pctOctet s = Some (b, r)"
    and c: "contOctets n r = Some (bs', rest)"
    by (auto split: option.splits if_splits)
  from pctOctet_shorter [OF p] Suc.IH [OF c] show ?case by simp
qed

function decodeURIComponent :: "jsstring \<Rightarrow> jsstring option" where
  "decodeURIComponent [] = Some []"
| "decodeURIComponent (c # cs) =
     (if c \<noteq> 37 then map_option ((#) c) (decodeURIComponent cs)
      else
        (case pctOctet (c # cs) of
           None \<Rightarrow> None
         | Some (b, rest) \<Rightarrow>
             (if b < 128 then map_option ((#) b) (decodeURIComponent rest)
              else if leadingOnes b = 1 \<or> 4 < leadingOnes b then None
              else
                (case contOctets (leadingOnes b - 1) rest of
                   None \<Rightarrow> None
                 | Some (bs, rest') \<Rightarrow>
                     (case utf8CodePoint (b # bs) of
                        None \<Rightarrow> None
                      | Some v \<Rightarrow>
                          map_option ((@) (utf16Encode v)) (decodeURIComponent rest'))))))"
  by pat_completeness auto
termination
proof (relation "measure length", goal_cases)
  case 1
  show ?case by simp
next
  case (2 c cs)
  then show ?case by simp
next
  case (3 c cs x2 b rest)
  then show ?case using pctOctet_shorter [of "c # cs" b rest] by simp
next
  case (4 c cs x2 b rest x2a bs rest' v)
  then show ?case
    using pctOctet_shorter [of "c # cs" b rest]
      contOctets_shorter [of "leadingOnes b - 1" rest bs rest']
    by simp
qed

section \<open>The name sanitizer\<close>

text \<open>
  \<open>sanitizeFilename\<close> of \<open>utils.js\<close>. The character classes are written as the
  code units of their members.
\<close>

definition isBracket :: "nat \<Rightarrow> bool" where
  \<comment> \<open>\<open>[\[\]]\<close>\<close>
  "isBracket c = (c = 91 \<or> c = 93)"

definition isInvalid :: "nat \<Rightarrow> bool" where
  \<comment> \<open>\<open>[<>:"/\\|?*]\<close>\<close>
  "isInvalid c =
     (c = 60 \<or> c = 62 \<or> c = 58 \<or> c = 34 \<or> c = 47 \<or> c = 92 \<or> c = 124 \<or> c = 63 \<or> c = 42)"

definition isParen :: "nat \<Rightarrow> bool" where
  \<comment> \<open>\<open>[()]\<close>\<close>
  "isParen c = (c = 40 \<or> c = 41)"

definition isSpecial :: "nat \<Rightarrow> bool" where
  \<comment> \<open>\<open>[&'`~!@#$%^+={}]\<close>\<close>
  "isSpecial c =
     (c = 38 \<or> c = 39 \<or> c = 96 \<or> c = 126 \<or> c = 33 \<or> c = 64 \<or> c = 35 \<or> c = 36
      \<or> c = 37 \<or> c = 94 \<or> c = 43 \<or> c = 61 \<or> c = 123 \<or> c = 125)"

definition isDot :: "nat \<Rightarrow> bool" where
  "isDot c = (c = 46)"

definition isDash :: "nat \<Rightarrow> bool" where
  "isDash c = (c = dash)"

definition isUnderscore :: "nat \<Rightarrow> bool" where
  "isUnderscore c = (c = underscore)"

definition isDashOrUnderscore :: "nat \<Rightarrow> bool" where
  \<comment> \<open>\<open>[-_]\<close>\<close>
  "isDashOrUnderscore c = (c = dash \<or> c = underscore)"

text \<open>
  The first step: the name is decoded when it contains a percent sign, and kept as
  it is when the decoder throws.
\<close>

definition urlDecoded :: "jsstring \<Rightarrow> jsstring" where
  "urlDecoded filename =
     (if 37 \<in> set filename then
        (case decodeURIComponent filename of
           Some decoded \<Rightarrow> decoded
         | None \<Rightarrow> filename)
      else filename)"

definition sanitizeFilename :: "jsstring \<Rightarrow> jsstring" where
  "sanitizeFilename filename =
     take 100
       (trimEnds isDashOrUnderscore
         (replacePairs
           (replaceRuns2 isUnderscore underscore
             (replaceRuns isDash dash
               (replaceRuns isDot underscore
                 (replaceRuns isSpace underscore
                   (removeAll isSpecial
                     (removeAll isParen
                       (replaceEach isInvalid underscore
                         (removeAll isBracket (urlDecoded filename)))))))))))"

section \<open>Concurrency resolution\<close>

text \<open>
  \<open>parseInt(s, 10)\<close>: leading white space is skipped, one sign is read, and the
  longest prefix of decimal digits that follows is the value; \<open>None\<close> is \<open>NaN\<close>,
  the result when there is no digit. The value is an integer; \<open>-0\<close> is \<open>0\<close>.
\<close>

definition isDigit :: "nat \<Rightarrow> bool" where
  "isDigit c = (48 \<le> c \<and> c \<le> 57)"

definition digitsValue :: "jsstring \<Rightarrow> int" where
  "digitsValue ds = foldl (\<lambda>acc c. 10 * acc + (int c - 48)) 0 ds"

definition parseInt10 :: "jsstring \<Rightarrow> int option" where
  "parseInt10 s =
     (let t = dropWhile isSpace s;
          negative = (case t of [] \<Rightarrow> False | c # _ \<Rightarrow> c = 45);
          u = (case t of [] \<Rightarrow> [] | c # cs \<Rightarrow> if c = 43 \<or> c = 45 then cs else t);
          z = takeWhile isDigit u
      in if z = [] then None
         else Some (if negative then - digitsValue z else digitsValue z))"

text \<open>
  \<open>x || d\<close> for a number \<open>x\<close>: \<open>NaN\<close> and \<open>0\<close> are falsy, so \<open>d\<close> is the value
  then.
\<close>

definition orDefault :: "int option \<Rightarrow> int \<Rightarrow> int" where
  "orDefault x d = (case x of None \<Rightarrow> d | Some v \<Rightarrow> if v = 0 then d else v)"

text \<open>
  The concurrency that \<open>processVideos\<close> and \<open>processVideosFromList\<close> compute, in
  the same words, from the number of CPUs \<open>os.cpus().length\<close>, the option
  \<open>userConcurrency\<close> (a string, \<open>auto\<close> by default) and the number of videos.
  Both functions return before this point when there is no video.
\<close>

definition defaultConcurrency :: "nat \<Rightarrow> int" where
  "defaultConcurrency cpuCount = max 1 (int cpuCount div 2)"

definition resolveConcurrency :: "nat \<Rightarrow> jsstring \<Rightarrow> nat \<Rightarrow> int" where
  "resolveConcurrency cpuCount userConcurrency videosLength =
     (let concurrency =
            (if userConcurrency = lit ''auto''
             then min (defaultConcurrency cpuCount) (int videosLength)
             else min (orDefault (parseInt10 userConcurrency) (defaultConcurrency cpuCount))
                      (int videosLength))
      in max 1 concurrency)"

section \<open>The environment of a run\<close>

text \<open>
  A video object, as \<open>findVideoFiles\<close> and the downloader build it. The field
  \<open>size\<close> of the source is \<open>fileSize\<close> here.
\<close>

record video =
  path :: jsstring
  name :: jsstring
  extension :: jsstring
  fileSize :: nat

text \<open>The options that \<open>processVideosParallel\<close> receives.\<close>

record options =
  quality :: int
  format :: jsstring
  fps :: "jsstring option"
  startTime :: "jsstring option"
  endTime :: "jsstring option"
  verbose :: bool
  quiet :: bool
  force :: bool

text \<open>
  The errors that the program throws, by the message it builds:
  \<open>Failed to create output directory after n attempts: msg\<close>,
  \<open>ffmpeg exited with code c\<close> followed by the captured standard error,
  \<open>Failed to start ffmpeg: msg\<close>, and any other message.
\<close>

datatype error =
    MkdirFailed nat jsstring
  | FfmpegExited int jsstring
  | FfmpegNotStarted jsstring
  | Message jsstring

text \<open>
  What happens outside the program is recorded as a list of events: a wait on
  \<open>setTimeout\<close> with its milliseconds, a call of \<open>fs.mkdirSync\<close>, a run of
  \<open>ffprobe\<close> and of \<open>ffmpeg\<close>, an upload, a call of \<open>fs.unlinkSync\<close> and of
  \<open>fs.rmdirSync\<close>.
\<close>

datatype event =
    Slept nat
  | Mkdir jsstring
  | Ffprobe jsstring
  | Ffmpeg jsstring jsstring
  | Upload jsstring jsstring
  | Unlink jsstring
  | Rmdir jsstring

text \<open>
  The file system and the trace. \<open>dirs\<close> gives the entries of each directory that
  exists. \<open>mkdirFaults\<close> is the number of coming calls of \<open>mkdirSync\<close> on a path
  that throw, the transient failures of a slow or network-backed file system.
  \<open>locked\<close> holds the files that \<open>unlinkSync\<close> cannot delete.
\<close>

record world =
  dirs :: "jsstring \<Rightarrow> jsstring list option"
  mkdirFaults :: "jsstring \<Rightarrow> nat"
  locked :: "jsstring set"
  trace :: "event list"

text \<open>
  How a run of \<open>ffmpeg\<close> ends: the \<open>close\<close> event with the exit code and what it
  wrote on standard error, or the \<open>error\<close> event when the process does not start.
\<close>

datatype exit = Closed int jsstring | SpawnError jsstring

record ffmpegRun =
  written :: "jsstring list"
  outcome :: exit

text \<open>A number of the language that the program only passes along.\<close>

typedecl number

text \<open>A file that \<open>downloadVideo\<close> returns.\<close>

record download =
  downloadPath :: jsstring
  downloadName :: jsstring
  downloadCached :: bool

text \<open>
  The collaborators of the program: the functions of \<open>path\<close>, the clock
  \<open>Date.now\<close> as a function of what has happened, \<open>(ms / 1000).toFixed(2)\<close>, the
  two external programs as functions of their inputs (\<open>ffmpeg\<close> receives the video,
  the output directory and the options its arguments are built from), the upload
  of one file, the lookup or creation of a remote folder, and the download of one
  URL. An \<open>Inl\<close> is the message of the error thrown.
\<close>

record env =
  path_join :: "jsstring \<Rightarrow> jsstring \<Rightarrow> jsstring"
  path_dirname :: "jsstring \<Rightarrow> jsstring"
  path_basename :: "jsstring \<Rightarrow> jsstring"
  clock :: "event list \<Rightarrow> int"
  toFixed2 :: "int \<Rightarrow> jsstring"
  ffprobe :: "jsstring \<Rightarrow> number option"
  ffmpeg :: "jsstring \<Rightarrow> jsstring \<Rightarrow> options \<Rightarrow> ffmpegRun"
  uploadFile :: "jsstring \<Rightarrow> jsstring \<Rightarrow> jsstring + jsstring"
  getOrCreateFolder :: "jsstring \<Rightarrow> jsstring \<Rightarrow> jsstring + jsstring"
  downloadVideo :: "jsstring \<Rightarrow> jsstring + download"

subsection \<open>File-system calls\<close>

definition logEvent :: "event \<Rightarrow> world \<Rightarrow> world" where
  "logEvent e w = w\<lparr>trace := trace w @ [e]\<rparr>"

text \<open>\<open>await new Promise(resolve => setTimeout(resolve, ms))\<close>\<close>

definition sleep :: "nat \<Rightarrow> world \<Rightarrow> world" where
  "sleep ms w = logEvent (Slept ms) w"

definition existsSync :: "world \<Rightarrow> jsstring \<Rightarrow> bool" where
  "existsSync w p = (dirs w p \<noteq> None)"

text \<open>
  \<open>fs.mkdirSync(p, { recursive: true })\<close>: it throws while the path has faults
  left, and otherwise leaves the directory in place, empty when it is new.
\<close>

definition mkdirSync :: "jsstring \<Rightarrow> world \<Rightarrow> (jsstring \<times> world) + world" where
  "mkdirSync p w =
     (let w1 = logEvent (Mkdir p) w in
      if 0 < mkdirFaults w p
      then Inl (lit ''EIO'', w1\<lparr>mkdirFaults := (mkdirFaults w)(p := mkdirFaults w p - 1)\<rparr>)
      else Inr (w1\<lparr>dirs := (dirs w)(p := Some (case dirs w p of None \<Rightarrow> [] | Some fs \<Rightarrow> fs))\<rparr>))"

text \<open>\<open>fs.readdirSync(p)\<close>; \<open>None\<close> when it throws.\<close>

definition readdirSync :: "world \<Rightarrow> jsstring \<Rightarrow> jsstring list option" where
  "readdirSync w p = dirs w p"

text \<open>
  \<open>fs.unlinkSync(p)\<close>: the entry of the file leaves its directory; the call throws
  on a file that is locked or is not there.
\<close>

definition unlinkSync :: "env \<Rightarrow> jsstring \<Rightarrow> world \<Rightarrow> (jsstring \<times> world) + world" where
  "unlinkSync env p w =
     (let w1 = logEvent (Unlink p) w; d = path_dirname env p; f = path_basename env p in
      case dirs w d of
        None \<Rightarrow> Inl (lit ''ENOENT'', w1)
      | Some fs \<Rightarrow>
          if f \<notin> set fs then Inl (lit ''ENOENT'', w1)
          else if p \<in> locked w then Inl (lit ''EPERM'', w1)
          else Inr (w1\<lparr>dirs := (dirs w)(d := Some (filter (\<lambda>g. g \<noteq> f) fs))\<rparr>))"

text \<open>\<open>fs.rmdirSync(p)\<close>: only an empty directory is removed.\<close>

definition rmdirSync :: "jsstring \<Rightarrow> world \<Rightarrow> (jsstring \<times> world) + world" where
  "rmdirSync p w =
     (let w1 = logEvent (Rmdir p) w in
      case dirs w p of
        None \<Rightarrow> Inl (lit ''ENOENT'', w1)
      | Some fs \<Rightarrow>
          if fs = [] then Inr (w1\<lparr>dirs := (dirs w)(p := None)\<rparr>)
          else Inl (lit ''ENOTEMPTY'', w1))"

text \<open>
  The files that a run of \<open>ffmpeg\<close> leaves in its output directory, over the ones
  of the same name (\<open>-y\<close>); it creates no directory.
\<close>

definition writeFiles :: "jsstring \<Rightarrow> jsstring list \<Rightarrow> world \<Rightarrow> world" where
  "writeFiles d fs w =
     (case dirs w d of
        None \<Rightarrow> w
      | Some old \<Rightarrow> w\<lparr>dirs := (dirs w)(d := Some (old @ filter (\<lambda>f. f \<notin> set old) fs))\<rparr>)"

section \<open>The single-item processor\<close>

text \<open>
  \<open>extractFrames\<close>: the process is spawned and the promise settles on its \<open>close\<close>
  or \<open>error\<close> event. Standard error is captured only when \<open>verbose\<close> is off. The
  argument vector is built from the inputs given to \<open>ffmpeg\<close> here.
\<close>

definition extractFrames ::
  "env \<Rightarrow> jsstring \<Rightarrow> jsstring \<Rightarrow> options \<Rightarrow> world \<Rightarrow> (error \<times> world) + world" where
  "extractFrames env videoPath outputDir opts w =
     (let run = ffmpeg env videoPath outputDir opts;
          w1 = writeFiles outputDir (written run) (logEvent (Ffmpeg videoPath outputDir) w)
      in case outcome run of
           Closed code stderr \<Rightarrow>
             if code = 0 then Inr w1
             else Inl (FfmpegExited code (if verbose opts then [] else stderr), w1)
         | SpawnError msg \<Rightarrow> Inl (FfmpegNotStarted msg, w1))"

text \<open>\<open>getVideoDuration\<close> of \<open>utils.js\<close>: it resolves in every case.\<close>

definition getVideoDuration :: "env \<Rightarrow> jsstring \<Rightarrow> world \<Rightarrow> number option \<times> world" where
  "getVideoDuration env videoPath w = (ffprobe env videoPath, logEvent (Ffprobe videoPath) w)"

definition countExtractedFrames :: "world \<Rightarrow> jsstring \<Rightarrow> nat" where
  "countExtractedFrames w directory =
     (case readdirSync w directory of
        Some files \<Rightarrow> length (filter (\<lambda>f. endsWith f (lit ''.png'')) files)
      | None \<Rightarrow> 0)"

text \<open>
  The result object of \<open>processSingleVideo\<close>: with \<open>success: true\<close> it carries
  \<open>cached\<close>, \<open>video\<close>, \<open>index\<close>, \<open>frameCount\<close>, \<open>elapsedTime\<close>, \<open>duration\<close> and
  \<open>outputDir\<close>; with \<open>success: false\<close> it carries \<open>video\<close>, \<open>index\<close>, \<open>error\<close>
  and \<open>outputDir\<close> (and \<open>cached: false\<close>).
\<close>

datatype result =
    Success bool video nat nat jsstring "number option" jsstring
  | Failure video nat error jsstring

fun success :: "result \<Rightarrow> bool" where
  "success (Success _ _ _ _ _ _ _) = True"
| "success (Failure _ _ _ _) = False"

fun cached :: "result \<Rightarrow> bool" where
  "cached (Success c _ _ _ _ _ _) = c"
| "cached (Failure _ _ _ _) = False"

fun resultVideo :: "result \<Rightarrow> video" where
  "resultVideo (Success _ v _ _ _ _ _) = v"
| "resultVideo (Failure v _ _ _) = v"

text \<open>
  The loop \<open>for (let attempt = 1; attempt <= maxRetries; attempt++)\<close> that creates
  the output directory. \<open>Inl\<close> is the error thrown from the \<open>catch\<close> block on the
  last attempt.
\<close>

function createOutputDir ::
  "nat \<Rightarrow> nat \<Rightarrow> jsstring \<Rightarrow> world \<Rightarrow> (error \<times> world) + world" where
  "createOutputDir maxRetries attempt videoOutputDir w =
     (if attempt \<le> maxRetries then
        (case (if \<not> existsSync w videoOutputDir then mkdirSync videoOutputDir w else Inr w) of
           Inr w1 \<Rightarrow>
             if existsSync w1 videoOutputDir then Inr w1
             else createOutputDir maxRetries (Suc attempt) videoOutputDir w1
         | Inl (msg, w1) \<Rightarrow>
             if attempt = maxRetries then Inl (MkdirFailed maxRetries msg, w1)
             else createOutputDir maxRetries (Suc attempt) videoOutputDir
                    (sleep (500 * attempt) w1))
      else Inr w)"
  by pat_completeness auto
termination
  by (relation "measure (\<lambda>(maxRetries, attempt, d, w). Suc maxRetries - attempt)") auto

declare createOutputDir.simps [simp del]

definition processSingleVideo ::
  "env \<Rightarrow> video \<Rightarrow> nat \<Rightarrow> nat \<Rightarrow> jsstring \<Rightarrow> options \<Rightarrow> world
     \<Rightarrow> (error \<times> world) + (result \<times> world)" where
  "processSingleVideo env vid idx totalVideos outputDir opts w =
     (let sanitizedName = sanitizeFilename (name vid);
          videoOutputDir = path_join env outputDir sanitizedName;
          started = clock env (trace w)
      in if \<not> force opts \<and> 0 < countExtractedFrames w videoOutputDir
         then Inr (Success True vid idx (countExtractedFrames w videoOutputDir) (lit ''0.00'')
                     None videoOutputDir, w)
         else
           (case createOutputDir 3 1 videoOutputDir w of
              Inl thrown \<Rightarrow> Inl thrown
            | Inr w1 \<Rightarrow>
                (let w2 = sleep (100 * idx) w1;
                     (duration, w3) = getVideoDuration env (path vid) w2
                 in case extractFrames env (path vid) videoOutputDir opts w3 of
                      Inr w4 \<Rightarrow>
                        Inr (Success False vid idx (countExtractedFrames w4 videoOutputDir)
                               (toFixed2 env (clock env (trace w4) - started)) duration
                               videoOutputDir, w4)
                    | Inl (e, w4) \<Rightarrow> Inr (Failure vid idx e videoOutputDir, w4))))"

text \<open>
  An async function runs inside the call that starts it up to its first \<open>await\<close>;
  what follows runs later, from the event loop. In \<open>processSingleVideo\<close> a cache hit
  returns before any \<open>await\<close>. Otherwise the first \<open>await\<close> is the wait in the
  \<open>catch\<close> block of the attempt whose \<open>mkdirSync\<close> throws, or the staggered wait
  when the loop ends without a throw. Where a call stands at that point:
  it has returned its result; it has thrown; it is in the \<open>catch\<close> block of an
  attempt, about to wait, with \<open>videoOutputDir\<close> and \<open>startTime\<close> computed; or the
  loop is over and it is about to wait \<open>100 * index\<close> ms.
\<close>

datatype started =
    Answered result
  | Rejected error
  | Retrying jsstring int nat
  | Staggering jsstring int

text \<open>
  The loop that creates the output directory, up to the first call of \<open>mkdirSync\<close>
  that throws: the loop has ended, or the \<open>catch\<close> block of an attempt has the
  message of the error.
\<close>

datatype attempted = Finished world | Caught nat jsstring world

function createOutputDirStart :: "nat \<Rightarrow> nat \<Rightarrow> jsstring \<Rightarrow> world \<Rightarrow> attempted" where
  "createOutputDirStart maxRetries attempt videoOutputDir w =
     (if attempt \<le> maxRetries then
        (case (if \<not> existsSync w videoOutputDir then mkdirSync videoOutputDir w else Inr w) of
           Inr w1 \<Rightarrow>
             if existsSync w1 videoOutputDir then Finished w1
             else createOutputDirStart maxRetries (Suc attempt) videoOutputDir w1
         | Inl (msg, w1) \<Rightarrow> Caught attempt msg w1)
      else Finished w)"
  by pat_completeness auto
termination
  by (relation "measure (\<lambda>(maxRetries, attempt, d, w). Suc maxRetries - attempt)") auto

declare createOutputDirStart.simps [simp del]

text \<open>\<open>processSingleVideo\<close> up to its first \<open>await\<close>.\<close>

definition startVideo ::
  "env \<Rightarrow> video \<Rightarrow> nat \<Rightarrow> nat \<Rightarrow> jsstring \<Rightarrow> options \<Rightarrow> world \<Rightarrow> started \<times> world" where
  "startVideo env vid idx totalVideos outputDir opts w =
     (let sanitizedName = sanitizeFilename (name vid);
          videoOutputDir = path_join env outputDir sanitizedName;
          started = clock env (trace w)
      in if \<not> force opts \<and> 0 < countExtractedFrames w videoOutputDir
         then (Answered (Success True vid idx (countExtractedFrames w videoOutputDir)
                           (lit ''0.00'') None videoOutputDir), w)
         else
           (case createOutputDirStart 3 1 videoOutputDir w of
              Finished w1 \<Rightarrow> (Staggering videoOutputDir started, w1)
            | Caught attempt msg w1 \<Rightarrow>
                if attempt = 3 then (Rejected (MkdirFailed 3 msg), w1)
                else (Retrying videoOutputDir started attempt, w1)))"

text \<open>
  \<open>processSingleVideo\<close> from the staggered wait on: the wait, \<open>ffprobe\<close>, \<open>ffmpeg\<close>
  and the result object, a failure when \<open>extractFrames\<close> rejects.
\<close>

definition extractVideo ::
  "env \<Rightarrow> video \<Rightarrow> nat \<Rightarrow> options \<Rightarrow> jsstring \<Rightarrow> int \<Rightarrow> world \<Rightarrow> result \<times> world" where
  "extractVideo env vid idx opts videoOutputDir started w1 =
     (let w2 = sleep (100 * idx) w1;
          (duration, w3) = getVideoDuration env (path vid) w2
      in case extractFrames env (path vid) videoOutputDir opts w3 of
           Inr w4 \<Rightarrow>
             (Success False vid idx (countExtractedFrames w4 videoOutputDir)
                (toFixed2 env (clock env (trace w4) - started)) duration videoOutputDir, w4)
         | Inl (e, w4) \<Rightarrow> (Failure vid idx e videoOutputDir, w4))"

text \<open>
  \<open>processSingleVideo\<close> from its first \<open>await\<close> on. A call in a \<open>catch\<close> block waits
  \<open>500 * attempt\<close> ms and goes through the rest of the loop.
\<close>

definition resumeVideo ::
  "env \<Rightarrow> video \<Rightarrow> nat \<Rightarrow> options \<Rightarrow> started \<Rightarrow> world
     \<Rightarrow> (error \<times> world) + (result \<times> world)" where
  "resumeVideo env vid idx opts s w =
     (case s of
        Answered r \<Rightarrow> Inr (r, w)
      | Rejected e \<Rightarrow> Inl (e, w)
      | Staggering videoOutputDir started \<Rightarrow>
          Inr (extractVideo env vid idx opts videoOutputDir started w)
      | Retrying videoOutputDir started attempt \<Rightarrow>
          (case createOutputDir 3 (Suc attempt) videoOutputDir (sleep (500 * attempt) w) of
             Inl thrown \<Rightarrow> Inl thrown
           | Inr w1 \<Rightarrow> Inr (extractVideo env vid idx opts videoOutputDir started w1)))"

section \<open>The batch scheduler\<close>

text \<open>
  \<open>xs.slice(start, end)\<close> on integers: a negative index counts from the end of the
  array, and both ends are clamped to the array.
\<close>

definition js_slice :: "'a list \<Rightarrow> int \<Rightarrow> int \<Rightarrow> 'a list" where
  "js_slice xs startIndex endIndex =
     (let len = int (length xs);
          k = (if startIndex < 0 then max (len + startIndex) 0 else min startIndex len);
          final = (if endIndex < 0 then max (len + endIndex) 0 else min endIndex len)
      in take (nat (final - k)) (drop (nat k) xs))"

text \<open>
  How a function with a loop ends: it returns, it throws (an async function
  rejects) and leaves a world behind, or the loop is still running when the fuel of
  the model is used up.
\<close>

datatype 'a run = Returned 'a | Threw error world | Running

text \<open>
  The counters of \<open>processVideosParallel\<close>. They hold non-negative integers, far
  below the range where a number of the language stops being exact.
\<close>

record totals =
  results :: "result list"
  completed :: nat
  successCount :: nat
  cachedCount :: nat
  failCount :: nat
  totalFrames :: nat

definition initialTotals :: totals where
  "initialTotals =
     \<lparr>results = [], completed = 0, successCount = 0, cachedCount = 0, failCount = 0,
      totalFrames = 0\<rparr>"

text \<open>The body of \<open>for (const result of batchResults)\<close>, without its printing.\<close>

fun tally :: "totals \<Rightarrow> result \<Rightarrow> totals" where
  "tally t (Success isCached v i frames elapsed duration d) =
     (let t1 = t\<lparr>completed := completed t + 1,
                 results := results t @ [Success isCached v i frames elapsed duration d],
                 totalFrames := totalFrames t + frames\<rparr>
      in if isCached then t1\<lparr>cachedCount := cachedCount t + 1\<rparr>
         else t1\<lparr>successCount := successCount t + 1\<rparr>)"
| "tally t (Failure v i e d) =
     t\<lparr>completed := completed t + 1,
       results := results t @ [Failure v i e d],
       failCount := failCount t + 1\<rparr>"

text \<open>
  \<open>batch.map((video, batchIndex) => processSingleVideo(video, i + batchIndex,
  ...))\<close>: every call of the batch is started, in the order of the batch, and runs
  up to its first \<open>await\<close> before the next one starts. The first argument after the
  batch is the index of its first video, \<open>i\<close>.
\<close>

fun startBatch ::
  "env \<Rightarrow> video list \<Rightarrow> nat \<Rightarrow> nat \<Rightarrow> jsstring \<Rightarrow> options \<Rightarrow> world
     \<Rightarrow> started list \<times> world" where
  "startBatch env [] i totalVideos outputDir opts w = ([], w)"
| "startBatch env (v # vs) i totalVideos outputDir opts w =
     (let (s, w1) = startVideo env v i totalVideos outputDir opts w;
          (ss, w2) = startBatch env vs (Suc i) totalVideos outputDir opts w1
      in (s # ss, w2))"

text \<open>
  The started calls go on from the event loop until each has settled, with its
  result or with the error it throws; nothing cancels a call. The program does not
  fix the order in which the waits and the external programs of one batch end: the
  calls go on in the order of the batch here.
\<close>

fun resumeBatch ::
  "env \<Rightarrow> video list \<Rightarrow> started list \<Rightarrow> nat \<Rightarrow> options \<Rightarrow> world
     \<Rightarrow> (error + result) list \<times> world" where
  "resumeBatch env (v # vs) (s # ss) i opts w =
     (case resumeVideo env v i opts s w of
        Inl (e, w1) \<Rightarrow>
          (let (settled, w2) = resumeBatch env vs ss (Suc i) opts w1 in (Inl e # settled, w2))
      | Inr (r, w1) \<Rightarrow>
          (let (settled, w2) = resumeBatch env vs ss (Suc i) opts w1 in (Inr r # settled, w2)))"
| "resumeBatch env vs ss i opts w = ([], w)"

text \<open>
  \<open>Promise.all\<close> on settled promises: the list of the results in the order of the
  promises, or the first rejection. The rejections of one batch come from waits of
  the same length that begin in the order of the batch, so the first one in time is
  the first one of the list.
\<close>

fun promiseAll :: "(error + 'a) list \<Rightarrow> error + 'a list" where
  "promiseAll [] = Inr []"
| "promiseAll (Inl e # ps) = Inl e"
| "promiseAll (Inr x # ps) = (case promiseAll ps of Inl e \<Rightarrow> Inl e | Inr xs \<Rightarrow> Inr (x # xs))"

text \<open>
  \<open>await Promise.all(batch.map(...))\<close>. When a call of the batch rejects, the
  others have been started and go on all the same: the world of the rejection is
  the one that the whole batch leaves.
\<close>

definition runBatch ::
  "env \<Rightarrow> video list \<Rightarrow> nat \<Rightarrow> nat \<Rightarrow> jsstring \<Rightarrow> options \<Rightarrow> world
     \<Rightarrow> (error \<times> world) + (result list \<times> world)" where
  "runBatch env batch i totalVideos outputDir opts w =
     (let (ss, w1) = startBatch env batch i totalVideos outputDir opts w;
          (settled, w2) = resumeBatch env batch ss i opts w1
      in case promiseAll settled of
           Inl e \<Rightarrow> Inl (e, w2)
         | Inr batchResults \<Rightarrow> Inr (batchResults, w2))"

text \<open>
  The loop \<open>for (let i = 0; i < videos.length; i += concurrency)\<close>. The fuel bounds
  the number of iterations; with a concurrency of 0 the loop of the source never
  ends.
\<close>

fun batchLoop ::
  "nat \<Rightarrow> env \<Rightarrow> video list \<Rightarrow> jsstring \<Rightarrow> options \<Rightarrow> nat \<Rightarrow> nat \<Rightarrow> totals \<Rightarrow> world
     \<Rightarrow> (totals \<times> world) run" where
  "batchLoop 0 env videos outputDir opts concurrency i t w =
     (if i < length videos then Running else Returned (t, w))"
| "batchLoop (Suc fuel) env videos outputDir opts concurrency i t w =
     (if i < length videos then
        (let batch = js_slice videos (int i) (int (min (i + concurrency) (length videos))) in
         case runBatch env batch i (length videos) outputDir opts w of
           Inl (e, w1) \<Rightarrow> Threw e w1
         | Inr (batchResults, w1) \<Rightarrow>
             batchLoop fuel env videos outputDir opts concurrency (i + concurrency)
               (foldl tally t batchResults) w1)
      else Returned (t, w))"

definition processVideosParallel ::
  "nat \<Rightarrow> env \<Rightarrow> video list \<Rightarrow> jsstring \<Rightarrow> options \<Rightarrow> nat \<Rightarrow> world
     \<Rightarrow> (totals \<times> world) run" where
  "processVideosParallel fuel env videos outputDir opts concurrency w =
     batchLoop fuel env videos outputDir opts concurrency 0 initialTotals w"

section \<open>The downloader\<close>

text \<open>
  \<open>main\<close> calls \<open>downloadAllVideos\<close> with
  \<open>parseInt(concurrency, 10) || 4\<close>.
\<close>

definition downloadConcurrency :: "jsstring \<Rightarrow> int" where
  "downloadConcurrency userConcurrency = orDefault (parseInt10 userConcurrency) 4"

text \<open>
  The result of one URL: \<open>{ success: true, ...result, url }\<close> or
  \<open>{ success: false, url, error }\<close>.
\<close>

datatype downloadResult =
    Downloaded download jsstring
  | DownloadFailed jsstring jsstring

record downloadState =
  downloadResults :: "downloadResult list"
  downloadSuccessCount :: nat
  downloadFailCount :: nat
  downloadCachedCount :: nat

definition initialDownloads :: downloadState where
  "initialDownloads =
     \<lparr>downloadResults = [], downloadSuccessCount = 0, downloadFailCount = 0,
      downloadCachedCount = 0\<rparr>"

text \<open>
  The callback of \<open>batch.map\<close> for one URL, with the push of its result. What
  \<open>downloadVideo\<close> does for a URL is taken from the environment.
\<close>

definition downloadOne :: "env \<Rightarrow> downloadState \<Rightarrow> jsstring \<Rightarrow> downloadState" where
  "downloadOne env st url =
     (case downloadVideo env url of
        Inr result \<Rightarrow>
          (if downloadCached result
           then st\<lparr>downloadCachedCount := downloadCachedCount st + 1,
                   downloadResults := downloadResults st @ [Downloaded result url]\<rparr>
           else st\<lparr>downloadSuccessCount := downloadSuccessCount st + 1,
                   downloadResults := downloadResults st @ [Downloaded result url]\<rparr>)
      | Inl msg \<Rightarrow>
          st\<lparr>downloadFailCount := downloadFailCount st + 1,
              downloadResults := downloadResults st @ [DownloadFailed url msg]\<rparr>)"

text \<open>
  The loop \<open>for (let i = 0; i < urls.length; i += batchSize)\<close>. The first component
  of the value is the list of the batches handed to \<open>Promise.all\<close>, in order: the
  downloads of one batch are in flight together. It is what the loop has done when
  it ends or when the fuel is used up. \<open>i\<close> and \<open>batchSize\<close> are integers: nothing
  keeps the batch size positive.
\<close>

fun downloadLoop ::
  "nat \<Rightarrow> env \<Rightarrow> jsstring list \<Rightarrow> int \<Rightarrow> int \<Rightarrow> downloadState
     \<Rightarrow> jsstring list list \<times> downloadState run" where
  "downloadLoop 0 env urls batchSize i st =
     ([], if i < int (length urls) then Running else Returned st)"
| "downloadLoop (Suc fuel) env urls batchSize i st =
     (if i < int (length urls) then
        (let batch = js_slice urls i (min (i + batchSize) (int (length urls)));
             (batches, r) = downloadLoop fuel env urls batchSize (i + batchSize)
                              (foldl (downloadOne env) st batch)
         in (batch # batches, r))
      else ([], Returned st))"

text \<open>
  \<open>downloadAllVideos\<close> from the list of URLs that \<open>readUrlsFromFile\<close> gives. The
  function returns the successful results of the final state as video objects.
\<close>

definition downloadAllVideos ::
  "nat \<Rightarrow> env \<Rightarrow> jsstring list \<Rightarrow> int \<Rightarrow> jsstring list list \<times> downloadState run" where
  "downloadAllVideos fuel env urls concurrency =
     (if urls = [] then ([], Returned initialDownloads)
      else (let batchSize = min concurrency 3
            in downloadLoop fuel env urls batchSize 0 initialDownloads))"

section \<open>The upload orchestrator\<close>

text \<open>
  The result of one file: \<open>{ success: true, file, driveId }\<close> or
  \<open>{ success: false, file, error }\<close>.
\<close>

datatype uploadResult =
    Uploaded jsstring jsstring
  | UploadFailed jsstring jsstring

record uploadState =
  uploadResults :: "uploadResult list"
  uploadSuccessCount :: nat
  uploadFailCount :: nat

definition initialUploads :: uploadState where
  "initialUploads = \<lparr>uploadResults = [], uploadSuccessCount = 0, uploadFailCount = 0\<rparr>"

definition uploadOne :: "env \<Rightarrow> jsstring \<Rightarrow> uploadState \<times> world \<Rightarrow> jsstring \<Rightarrow> uploadState \<times> world" where
  "uploadOne env folderId sw filePath =
     (let (st, w) = sw; w1 = logEvent (Upload filePath folderId) w in
      case uploadFile env filePath folderId of
        Inr driveId \<Rightarrow>
          (st\<lparr>uploadSuccessCount := uploadSuccessCount st + 1,
               uploadResults := uploadResults st @ [Uploaded filePath driveId]\<rparr>, w1)
      | Inl msg \<Rightarrow>
          (st\<lparr>uploadFailCount := uploadFailCount st + 1,
               uploadResults := uploadResults st @ [UploadFailed filePath msg]\<rparr>, w1))"

text \<open>The loop \<open>for (let i = 0; i < files.length; i += concurrency)\<close> of \<open>uploadFilesBatch\<close>.\<close>

fun uploadLoop ::
  "nat \<Rightarrow> env \<Rightarrow> jsstring list \<Rightarrow> jsstring \<Rightarrow> nat \<Rightarrow> nat \<Rightarrow> uploadState \<Rightarrow> world
     \<Rightarrow> (uploadState \<times> world) run" where
  "uploadLoop 0 env files folderId concurrency i st w =
     (if i < length files then Running else Returned (st, w))"
| "uploadLoop (Suc fuel) env files folderId concurrency i st w =
     (if i < length files then
        (let batch = js_slice files (int i) (int (min (i + concurrency) (length files)));
             (st1, w1) = foldl (uploadOne env folderId) (st, w) batch
         in uploadLoop fuel env files folderId concurrency (i + concurrency) st1 w1)
      else Returned (st, w))"

definition uploadFilesBatch ::
  "nat \<Rightarrow> env \<Rightarrow> jsstring list \<Rightarrow> jsstring \<Rightarrow> nat \<Rightarrow> world \<Rightarrow> (uploadState \<times> world) run" where
  "uploadFilesBatch fuel env files folderId concurrency w =
     uploadLoop fuel env files folderId concurrency 0 initialUploads w"

text \<open>
  The options of \<open>uploadVideoFrames\<close> and the object it returns; the fields that
  the early return leaves out are \<open>None\<close>.
\<close>

record uploadOptions =
  deleteAfterUpload :: bool
  uploadVerbose :: bool
  uploadConcurrency :: nat

record uploadSummary =
  uploadOk :: bool
  uploaded :: nat
  failed :: "nat option"
  deleted :: nat
  folderId :: "jsstring option"
  folderName :: "jsstring option"

text \<open>
  The loop \<open>for (const filePath of files)\<close> that deletes the local files: a file
  counts as deleted when \<open>unlinkSync\<close> does not throw.
\<close>

fun deleteFiles :: "env \<Rightarrow> jsstring list \<Rightarrow> nat \<Rightarrow> world \<Rightarrow> nat \<times> world" where
  "deleteFiles env [] deletedCount w = (deletedCount, w)"
| "deleteFiles env (filePath # rest) deletedCount w =
     (case unlinkSync env filePath w of
        Inr w1 \<Rightarrow> deleteFiles env rest (deletedCount + 1) w1
      | Inl (msg, w1) \<Rightarrow> deleteFiles env rest deletedCount w1)"

text \<open>The removal of the directory when it is empty; every error is ignored.\<close>

definition removeEmptyDirectory :: "jsstring \<Rightarrow> world \<Rightarrow> world" where
  "removeEmptyDirectory d w =
     (case readdirSync w d of
        None \<Rightarrow> w
      | Some remaining \<Rightarrow>
          if remaining = [] then (case rmdirSync d w of Inr w1 \<Rightarrow> w1 | Inl (msg, w1) \<Rightarrow> w1)
          else w)"

definition uploadVideoFrames ::
  "nat \<Rightarrow> env \<Rightarrow> jsstring \<Rightarrow> jsstring \<Rightarrow> uploadOptions \<Rightarrow> world
     \<Rightarrow> (uploadSummary \<times> world) run" where
  "uploadVideoFrames fuel env videoOutputDir parentFolderId uopts w =
     (let videoName = path_basename env videoOutputDir in
      case readdirSync w videoOutputDir of
        None \<Rightarrow> Threw (Message (lit ''ENOENT'')) w
      | Some entries \<Rightarrow>
          (let files = sort (map (path_join env videoOutputDir)
                               (filter (\<lambda>f. endsWith f (lit ''.png'')) entries))
           in if files = []
              then Returned (\<lparr>uploadOk = True, uploaded = 0, failed = None, deleted = 0,
                              folderId = None, folderName = None\<rparr>, w)
              else
                (case getOrCreateFolder env videoName parentFolderId of
                   Inl msg \<Rightarrow> Threw (Message msg) w
                 | Inr videoFolder \<Rightarrow>
                     (case uploadFilesBatch fuel env files videoFolder (uploadConcurrency uopts) w of
                        Threw e w1 \<Rightarrow> Threw e w1
                      | Running \<Rightarrow> Running
                      | Returned (st, w1) \<Rightarrow>
                          (let (deletedCount, w2) =
                                 (if deleteAfterUpload uopts \<and> 0 < uploadSuccessCount st
                                  then (let (n, w') = deleteFiles env files 0 w1
                                        in (n, removeEmptyDirectory videoOutputDir w'))
                                  else (0, w1))
                           in Returned
                                (\<lparr>uploadOk = (uploadFailCount st = 0),
                                  uploaded = uploadSuccessCount st,
                                  failed = Some (uploadFailCount st),
                                  deleted = deletedCount,
                                  folderId = Some videoFolder,
                                  folderName = Some videoName\<rparr>, w2))))))"

section \<open>Notions used in the statements and in the proofs\<close>

text \<open>The code units of \<open>[ ] < > : " / \ | ? * ( )\<close>.\<close>

definition hostile :: "nat set" where
  "hostile = {91, 93, 60, 62, 58, 34, 47, 92, 124, 63, 42, 40, 41}"

text \<open>The directory \<open>videoOutputDir\<close> that \<open>processSingleVideo\<close> computes for a video.\<close>

definition outputDirOf :: "env \<Rightarrow> jsstring \<Rightarrow> video \<Rightarrow> jsstring" where
  "outputDirOf env outputDir vid = path_join env outputDir (sanitizeFilename (name vid))"

text \<open>The waits of a trace, in order.\<close>

fun sleeps :: "event list \<Rightarrow> nat list" where
  "sleeps [] = []"
| "sleeps (Slept ms # es) = ms # sleeps es"
| "sleeps (e # es) = sleeps es"

text \<open>Whether the run of \<open>ffmpeg\<close> for a video ends with exit code 0.\<close>

fun exitOk :: "exit \<Rightarrow> bool" where
  "exitOk (Closed code stderr) = (code = 0)"
| "exitOk (SpawnError msg) = False"

definition extracts :: "env \<Rightarrow> jsstring \<Rightarrow> options \<Rightarrow> video \<Rightarrow> bool" where
  "extracts env outputDir opts vid =
     exitOk (outcome (ffmpeg env (path vid) (outputDirOf env outputDir vid) opts))"

text \<open>The totals after the first \<open>k\<close> results of a run have been counted.\<close>

definition runningTotals :: "result list \<Rightarrow> nat \<Rightarrow> totals" where
  "runningTotals rs k = foldl tally initialTotals (take k rs)"

text \<open>
  The test of the cache for a video in a world: \<open>force\<close> is off and the output
  directory of the video holds a \<open>.png\<close> file.
\<close>

definition cacheHit :: "env \<Rightarrow> jsstring \<Rightarrow> options \<Rightarrow> world \<Rightarrow> video \<Rightarrow> bool" where
  "cacheHit env out opts w v =
     (\<not> force opts \<and> 0 < countExtractedFrames w (outputDirOf env out v))"

text \<open>
  The staggered waits that a list of results stands for, when its first result has
  the list index \<open>i\<close>: 100 ms times the list index of every result that is not
  cached.
\<close>

fun staggerWaits :: "nat \<Rightarrow> result list \<Rightarrow> nat list" where
  "staggerWaits i [] = []"
| "staggerWaits i (r # rs) = (if cached r then [] else [100 * i]) @ staggerWaits (Suc i) rs"

text \<open>What a run returned, if it did, and what it threw, if it did.\<close>

fun returned :: "'a run \<Rightarrow> 'a option" where
  "returned (Returned x) = Some x"
| "returned (Threw e w) = None"
| "returned Running = None"

fun thrown :: "'a run \<Rightarrow> (error \<times> world) option" where
  "thrown (Returned x) = None"
| "thrown (Threw e w) = Some (e, w)"
| "thrown Running = None"

text \<open>
  How a call for a video stands after its start when no creation of a directory
  fails, for a cache test made in the world \<open>w\<close>: answered from the cache with
  a cached result for that video, or about to wait before the extraction into the
  output directory of the video.
\<close>

definition startedAs :: "env \<Rightarrow> jsstring \<Rightarrow> options \<Rightarrow> world \<Rightarrow> video \<Rightarrow> started \<Rightarrow> bool" where
  "startedAs env out opts w v s =
     (case s of
        Answered r \<Rightarrow> cacheHit env out opts w v \<and> cached r \<and> resultVideo r = v
      | Staggering d t \<Rightarrow> \<not> cacheHit env out opts w v \<and> d = outputDirOf env out v
      | Rejected e \<Rightarrow> False
      | Retrying d t k \<Rightarrow> False)"

text \<open>
  What links an outcome to its video: a cached outcome needs \<open>force\<close> to be off, and
  any other outcome is a success exactly when the run of \<open>ffmpeg\<close> for the video
  exits with code 0.
\<close>

definition outcomeOf :: "env \<Rightarrow> jsstring \<Rightarrow> options \<Rightarrow> result \<Rightarrow> video \<Rightarrow> bool" where
  "outcomeOf env out opts r v =
     (resultVideo r = v \<and>
      (if cached r then \<not> force opts else success r = extracts env out opts v))"

text \<open>
  The second world agrees with the first on the entries and on the coming failures
  of every directory outside the set \<open>D\<close>.
\<close>

definition elsewhere :: "jsstring set \<Rightarrow> world \<Rightarrow> world \<Rightarrow> bool" where
  "elsewhere D w w1 =
     (\<forall>p. p \<notin> D \<longrightarrow> dirs w1 p = dirs w p \<and> mkdirFaults w1 p = mkdirFaults w p)"

text \<open>
  What every start of a call for a video gives: a result, the error of the failed
  creation, or a call that goes on in the output directory of the video.
\<close>

definition startedFor :: "env \<Rightarrow> jsstring \<Rightarrow> video \<Rightarrow> started \<Rightarrow> bool" where
  "startedFor env out v s =
     (case s of
        Answered r \<Rightarrow> True
      | Rejected e \<Rightarrow> e = MkdirFailed 3 (lit ''EIO'')
      | Retrying d t k \<Rightarrow> d = outputDirOf env out v
      | Staggering d t \<Rightarrow> d = outputDirOf env out v)"

text \<open>
  The contiguous chunks of at most \<open>n\<close> elements of a list, the last one possibly
  shorter: what it means to partition a list into batches of size \<open>n\<close>.
\<close>

function chunksOf :: "nat \<Rightarrow> 'a list \<Rightarrow> 'a list list" where
  "chunksOf n xs = (if n = 0 \<or> xs = [] then [] else take n xs # chunksOf n (drop n xs))"
  by pat_completeness auto
termination
  by (relation "measure (\<lambda>(n, xs). length xs)") auto

declare chunksOf.simps [simp del]

section \<open>A concrete environment\<close>

text \<open>
  An environment for the examples: paths are joined with a slash, the run of
  \<open>ffmpeg\<close> on \<open>/in/B.mp4\<close> exits with code 1 and every other run writes two
  frames and exits with code 0, the upload of \<open>/out/A/frame_000002.png\<close> fails and
  every other upload succeeds, and the download of \<open>https://x/b\<close> fails.
\<close>

definition joinPath :: "jsstring \<Rightarrow> jsstring \<Rightarrow> jsstring" where
  "joinPath d f = d @ lit ''/'' @ f"

definition dirnameOf :: "jsstring \<Rightarrow> jsstring" where
  "dirnameOf p = rev (drop 1 (dropWhile (\<lambda>c. c \<noteq> 47) (rev p)))"

definition basenameOf :: "jsstring \<Rightarrow> jsstring" where
  "basenameOf p = rev (takeWhile (\<lambda>c. c \<noteq> 47) (rev p))"

definition exampleFfmpeg :: "jsstring \<Rightarrow> jsstring \<Rightarrow> options \<Rightarrow> ffmpegRun" where
  "exampleFfmpeg p d opts =
     (if p = lit ''/in/B.mp4''
      then \<lparr>written = [], outcome = Closed 1 (lit ''Invalid data'')\<rparr>
      else \<lparr>written = [lit ''frame_000001.png'', lit ''frame_000002.png''],
            outcome = Closed 0 []\<rparr>)"

definition exampleEnv :: env where
  "exampleEnv =
     \<lparr>path_join = joinPath, path_dirname = dirnameOf, path_basename = basenameOf,
      clock = (\<lambda>tr. 1000 * int (length tr)),
      toFixed2 = (\<lambda>ms. lit ''1.00''),
      ffprobe = (\<lambda>p. None),
      ffmpeg = exampleFfmpeg,
      uploadFile = (\<lambda>f folder.
        if f = lit ''/out/A/frame_000002.png'' then Inl (lit ''quota exceeded'')
        else Inr (lit ''id'')),
      getOrCreateFolder = (\<lambda>folderName parent. Inr (lit ''folder'')),
      downloadVideo = (\<lambda>url.
        if url = lit ''https://x/b'' then Inl (lit ''HTTP 404'')
        else Inr \<lparr>downloadPath = lit ''/dl/v.mp4'', downloadName = lit ''v'',
                   downloadCached = False\<rparr>)\<rparr>"

definition exampleOptions :: options where
  "exampleOptions =
     \<lparr>quality = 2, format = lit ''frame_%06d.png'', fps = None, startTime = None,
      endTime = None, verbose = False, quiet = False, force = False\<rparr>"

definition videoA :: video where
  "videoA = \<lparr>path = lit ''/in/A.mp4'', name = lit ''A'', extension = lit ''mp4'', fileSize = 1000\<rparr>"

definition videoB :: video where
  "videoB = \<lparr>path = lit ''/in/B.mp4'', name = lit ''B'', extension = lit ''mp4'', fileSize = 1000\<rparr>"

definition videoC :: video where
  "videoC = \<lparr>path = lit ''/in/C.mp4'', name = lit ''C'', extension = lit ''mp4'', fileSize = 1000\<rparr>"

text \<open>A second video of the name \<open>A\<close>, from another directory.\<close>

definition videoA2 :: video where
  "videoA2 = \<lparr>path = lit ''/in2/A.mp4'', name = lit ''A'', extension = lit ''mp4'', fileSize = 2000\<rparr>"

text \<open>
  A world in which only \<open>/out\<close> exists and is empty, and one in which \<open>/out/A\<close>
  holds three frames and a text file.
\<close>

definition freshWorld :: world where
  "freshWorld =
     \<lparr>dirs = (\<lambda>p. if p = lit ''/out'' then Some [] else None),
      mkdirFaults = (\<lambda>p. 0), locked = {}, trace = []\<rparr>"

definition extractedWorld :: world where
  "extractedWorld =
     \<lparr>dirs = (\<lambda>p. if p = lit ''/out/A''
                     then Some [lit ''frame_000001.png'', lit ''frame_000002.png'',
                                lit ''frame_000003.png'', lit ''notes.txt'']
                     else if p = lit ''/out'' then Some [lit ''A''] else None),
      mkdirFaults = (\<lambda>p. 0), locked = {}, trace = []\<rparr>"

text \<open>A world like \<open>freshWorld\<close> in which \<open>mkdirSync\<close> fails three times on \<open>/out/B\<close>.\<close>

definition faultyWorld :: world where
  "faultyWorld = freshWorld\<lparr>mkdirFaults := (\<lambda>p. if p = lit ''/out/B'' then 3 else 0)\<rparr>"

text \<open>Example inputs of the downloader and the uploader.\<close>

definition sixUrls :: "jsstring list" where
  "sixUrls = [lit ''https://x/a'', lit ''https://x/b'', lit ''https://x/c'',
              lit ''https://x/d'', lit ''https://x/e'', lit ''https://x/f'']"

definition uploadWorld :: world where
  "uploadWorld =
     \<lparr>dirs = (\<lambda>p. if p = lit ''/out/A''
                     then Some [lit ''frame_000001.png'', lit ''frame_000002.png'',
                                lit ''frame_000003.png'']
                     else if p = lit ''/out'' then Some [lit ''A''] else None),
      mkdirFaults = (\<lambda>p. 0), locked = {}, trace = []\<rparr>"

definition deletingUpload :: uploadOptions where
  "deletingUpload = \<lparr>deleteAfterUpload = True, uploadVerbose = False, uploadConcurrency = 10\<rparr>"

section \<open>Properties of the name sanitizer\<close>

lemma set_replaceRuns: "set (replaceRuns p r s) \<subseteq> insert r (set s)"
proof (induction p r s rule: replaceRuns.induct)
  case (1 p r)
  show ?case by simp
next
  case (2 p r c cs)
  have "set (dropWhile p cs) \<subseteq> set cs"
    by (auto dest: set_dropWhileD)
  with 2 show ?case by auto
qed

lemma set_replaceRuns2: "set (replaceRuns2 p r s) \<subseteq> insert r (set s)"
proof (induction p r s rule: replaceRuns2.induct)
  case (1 p r c d cs)
  have "set (dropWhile p cs) \<subseteq> set cs"
    by (auto dest: set_dropWhileD)
  with 1 show ?case by auto
qed simp_all

lemma set_replacePairs: "set (replacePairs s) \<subseteq> insert dash (set s)"
  by (induction s rule: replacePairs.induct) auto

lemma set_trimEnds: "set (trimEnds p s) \<subseteq> set s"
  by (auto simp: trimEnds_def dest!: set_dropWhileD)

lemma set_scrubbed:
  "set (removeAll isParen (replaceEach isInvalid underscore (removeAll isBracket s))) \<inter> hostile = {}"
  by (auto simp: removeAll_def replaceEach_def hostile_def isParen_def isInvalid_def
      isBracket_def underscore_def split: if_splits)

text \<open>
  After the brackets, the invalid characters and the parentheses are gone, the later
  steps only drop code units or put an underscore or a dash in their place.
\<close>

lemma sanitizeFilename_set:
  "set (sanitizeFilename n) \<subseteq>
     insert dash (insert underscore
       (set (removeAll isParen (replaceEach isInvalid underscore (removeAll isBracket (urlDecoded n))))))"
proof -
  let ?a = "removeAll isParen (replaceEach isInvalid underscore (removeAll isBracket (urlDecoded n)))"
  let ?b = "removeAll isSpecial ?a"
  let ?c = "replaceRuns isSpace underscore ?b"
  let ?d = "replaceRuns isDot underscore ?c"
  let ?e = "replaceRuns isDash dash ?d"
  let ?f = "replaceRuns2 isUnderscore underscore ?e"
  let ?g = "replacePairs ?f"
  let ?h = "trimEnds isDashOrUnderscore ?g"
  have b: "set ?b \<subseteq> set ?a" by (auto simp: removeAll_def)
  have c: "set ?c \<subseteq> insert underscore (set ?b)" by (rule set_replaceRuns)
  have d: "set ?d \<subseteq> insert underscore (set ?c)" by (rule set_replaceRuns)
  have e: "set ?e \<subseteq> insert dash (set ?d)" by (rule set_replaceRuns)
  have f: "set ?f \<subseteq> insert underscore (set ?e)" by (rule set_replaceRuns2)
  have g: "set ?g \<subseteq> insert dash (set ?f)" by (rule set_replacePairs)
  have h: "set ?h \<subseteq> set ?g" by (rule set_trimEnds)
  have "set (sanitizeFilename n) \<subseteq> set ?h"
    unfolding sanitizeFilename_def by (rule set_take_subset)
  with b c d e f g h show ?thesis by blast
qed

lemmas char_classes =
  isBracket_def isInvalid_def isParen_def isSpecial_def isSpace_def isDot_def isDash_def
  isUnderscore_def isDashOrUnderscore_def dash_def underscore_def

lemmas sanitize_eval =
  sanitizeFilename_def lit_def urlDecoded_def removeAll_def replaceEach_def trimEnds_def
  char_classes

text \<open>
  C5 (the code departs from the claim). The claim: for every input string \<open>x\<close>,
  \<open>sanitizeFilename(sanitizeFilename(x)) == sanitizeFilename(x)\<close>. On the name
  \<open>a - b\<close> the two spaces become underscores, the single pass of
  \<open>/_-|-_/g\<close> over \<open>a_-_b\<close> consumes \<open>_-\<close> and leaves the second underscore,
  and the result \<open>a-_b\<close> is not a fixed point: sanitizing it again gives \<open>a-b\<close>.
\<close>

theorem sanitizeFilename_twice_differs:
  "sanitizeFilename (lit ''a - b'') = lit ''a-_b'' \<and>
   sanitizeFilename (sanitizeFilename (lit ''a - b'')) = lit ''a-b'' \<and>
   sanitizeFilename (sanitizeFilename (lit ''a - b'')) \<noteq> sanitizeFilename (lit ''a - b'')"
  by (simp add: sanitize_eval)

text \<open>
  The cut to 100 code units comes after the trimming, so it can leave a dash or an
  underscore at the end, which a second pass removes: a name of 99 letters followed
  by \<open>_b\<close> is cut to the letters and the underscore.
\<close>

lemma sanitizeFilename_cut_differs:
  "sanitizeFilename
     (lit ''aaaaaaaaaaaaaaaaaaaaaaaaaaaaaaaaaaaaaaaaaaaaaaaaaaaaaaaaaaaaaaaaaaaaaaaaaaaaaaaaaaaaaaaaaaaaaaaaaaa_b'') =
   lit ''aaaaaaaaaaaaaaaaaaaaaaaaaaaaaaaaaaaaaaaaaaaaaaaaaaaaaaaaaaaaaaaaaaaaaaaaaaaaaaaaaaaaaaaaaaaaaaaaaaa_'' \<and>
   sanitizeFilename
     (lit ''aaaaaaaaaaaaaaaaaaaaaaaaaaaaaaaaaaaaaaaaaaaaaaaaaaaaaaaaaaaaaaaaaaaaaaaaaaaaaaaaaaaaaaaaaaaaaaaaaaa_'') =
   lit ''aaaaaaaaaaaaaaaaaaaaaaaaaaaaaaaaaaaaaaaaaaaaaaaaaaaaaaaaaaaaaaaaaaaaaaaaaaaaaaaaaaaaaaaaaaaaaaaaaaa''"
  by (simp add: sanitize_eval)

text \<open>
  C6. For every input string \<open>n\<close>, \<open>sanitizeFilename(n)\<close> has at most 100 code
  units and contains none of \<open>[ ] < > : " / \ | ? * ( )\<close>.
\<close>

theorem sanitizeFilename_bounded_clean:
  "length (sanitizeFilename n) \<le> 100 \<and>
   set (sanitizeFilename n) \<inter> {91, 93, 60, 62, 58, 34, 47, 92, 124, 63, 42, 40, 41} = {}"
proof
  show "length (sanitizeFilename n) \<le> 100"
    by (simp add: sanitizeFilename_def)
next
  have "dash \<notin> hostile" "underscore \<notin> hostile"
    by (simp_all add: hostile_def dash_def underscore_def)
  with sanitizeFilename_set [of n] set_scrubbed [of "urlDecoded n"]
  have "set (sanitizeFilename n) \<inter> hostile = {}" by blast
  then show "set (sanitizeFilename n) \<inter> {91, 93, 60, 62, 58, 34, 47, 92, 124, 63, 42, 40, 41} = {}"
    by (simp only: hostile_def)
qed

section \<open>Properties of the concurrency resolution\<close>

lemmas parse_eval =
  parseInt10_def digitsValue_def isDigit_def isSpace_def orDefault_def lit_def

text \<open>
  C4 as it stands fails: the claim lets an explicit numeric request \<open>r\<close> resolve
  to \<open>max(1, min(r, n))\<close>, which is 1 for the request \<open>0\<close>; the code reads the
  request with \<open>parseInt(userConcurrency, 10) || defaultConcurrency\<close>, so a request
  of \<open>0\<close> is falsy and resolves to the automatic default: 4 on 8 CPUs with 8 videos.
\<close>

theorem explicit_zero_counterexample:
  "parseInt10 (lit ''0'') = Some 0 \<and>
   resolveConcurrency 8 (lit ''0'') 8 = 4 \<and>
   resolveConcurrency 8 (lit ''0'') 8 \<noteq> max 1 (min 0 (int 8))"
  by (simp add: resolveConcurrency_def defaultConcurrency_def parse_eval)

text \<open>
  C4, amended. For \<open>n \<ge> 1\<close> videos and \<open>c\<close> CPUs, the request \<open>auto\<close> resolves to
  \<open>max(1, floor(c / 2))\<close> capped at \<open>n\<close> (2 for 8 videos on 4 CPUs); an explicit
  request that \<open>parseInt\<close> reads as an integer \<open>r \<noteq> 0\<close> resolves to
  \<open>max(1, min(r, n))\<close>; an explicit request that \<open>parseInt\<close> reads as \<open>0\<close> or cannot
  read resolves to the same value as \<open>auto\<close>.
\<close>

theorem resolveConcurrency_cases:
  assumes "1 \<le> n"
  shows "resolveConcurrency c (lit ''auto'') n = min (max 1 (int c div 2)) (int n) \<and>
         resolveConcurrency 4 (lit ''auto'') 8 = 2 \<and>
         (u \<noteq> lit ''auto'' \<and> parseInt10 u = Some r \<and> r \<noteq> 0 \<longrightarrow>
            resolveConcurrency c u n = max 1 (min r (int n))) \<and>
         (u \<noteq> lit ''auto'' \<and> (parseInt10 u = None \<or> parseInt10 u = Some 0) \<longrightarrow>
            resolveConcurrency c u n = resolveConcurrency c (lit ''auto'') n)"
proof -
  have auto: "resolveConcurrency c (lit ''auto'') n = min (max 1 (int c div 2)) (int n)"
    using assms by (simp add: resolveConcurrency_def defaultConcurrency_def)
  have four: "resolveConcurrency 4 (lit ''auto'') 8 = 2"
    by (simp add: resolveConcurrency_def defaultConcurrency_def)
  have numeric: "resolveConcurrency c u n = max 1 (min r (int n))"
    if "u \<noteq> lit ''auto''" "parseInt10 u = Some r" "r \<noteq> 0"
    using that by (simp add: resolveConcurrency_def orDefault_def)
  have fallback: "resolveConcurrency c u n = resolveConcurrency c (lit ''auto'') n"
    if "u \<noteq> lit ''auto''" "parseInt10 u = None \<or> parseInt10 u = Some 0"
    using that by (auto simp: resolveConcurrency_def orDefault_def)
  from auto four numeric fallback show ?thesis by blast
qed

theorem resolveConcurrency_cases_witness:
  "(1::nat) \<le> 8 \<and>
   resolveConcurrency 8 (lit ''auto'') 8 = 4 \<and>
   lit ''3'' \<noteq> lit ''auto'' \<and> parseInt10 (lit ''3'') = Some 3 \<and>
   resolveConcurrency 8 (lit ''3'') 8 = 3 \<and>
   parseInt10 (lit ''-5'') = Some (- 5) \<and> resolveConcurrency 8 (lit ''-5'') 8 = 1 \<and>
   parseInt10 (lit ''many'') = None \<and> resolveConcurrency 8 (lit ''many'') 8 = 4"
proof -
  have p3: "parseInt10 (lit ''3'') = Some 3" and p5: "parseInt10 (lit ''-5'') = Some (- 5)"
    and pm: "parseInt10 (lit ''many'') = None"
    by (simp_all add: parse_eval)
  have ne: "lit ''3'' \<noteq> lit ''auto''" "lit ''-5'' \<noteq> lit ''auto''" "lit ''many'' \<noteq> lit ''auto''"
    by (simp_all add: lit_def)
  have n: "(1::nat) \<le> 8" by simp
  from resolveConcurrency_cases [OF n, of 8 "lit ''3''" 3] p3 ne
  have a: "resolveConcurrency 8 (lit ''auto'') 8 = 4" "resolveConcurrency 8 (lit ''3'') 8 = 3"
    by simp_all
  from resolveConcurrency_cases [OF n, of 8 "lit ''-5''" "- 5"] p5 ne
  have b: "resolveConcurrency 8 (lit ''-5'') 8 = 1" by simp
  from resolveConcurrency_cases [OF n, of 8 "lit ''many''" 0] pm ne a
  have c: "resolveConcurrency 8 (lit ''many'') 8 = 4" by simp
  from a b c p3 p5 pm ne show ?thesis by simp
qed

section \<open>Properties of the single-item processor\<close>

text \<open>
  C1. When \<open>force\<close> is not set and the output directory of the item holds
  \<open>n \<ge> 1\<close> files whose names end in \<open>.png\<close>, \<open>processSingleVideo\<close> returns the
  success outcome with \<open>cached: true\<close>, \<open>frameCount: n\<close> and \<open>elapsedTime: '0.00'\<close>,
  and the world it leaves is the one it found: nothing was created, no wait and no
  run of \<open>ffmpeg\<close> was added to the trace.
\<close>

theorem cached_video_is_skipped:
  assumes "\<not> force opts"
    and "dirs w (outputDirOf env outputDir vid) = Some files"
    and "n = length (filter (\<lambda>f. endsWith f (lit ''.png'')) files)"
    and "1 \<le> n"
  shows "processSingleVideo env vid idx totalVideos outputDir opts w =
           Inr (Success True vid idx n (lit ''0.00'') None (outputDirOf env outputDir vid), w)"
proof -
  from assms have "filter (\<lambda>f. endsWith f (lit ''.png'')) files \<noteq> []" by auto
  with assms show ?thesis
    by (simp add: processSingleVideo_def outputDirOf_def countExtractedFrames_def
        readdirSync_def Let_def)
qed

subsection \<open>Creation of the output directory\<close>

lemmas createOutputDir_unfold =
  createOutputDir.simps [of 3 "Suc 0"] createOutputDir.simps [of 3 "Suc (Suc 0)"]
  createOutputDir.simps [of 3 "Suc (Suc (Suc 0))"]

lemma createOutputDir_present:
  "existsSync w d \<Longrightarrow> createOutputDir 3 1 d w = Inr w"
  by (simp add: createOutputDir_unfold)

lemma createOutputDir_0:
  assumes "dirs w d = None" "mkdirFaults w d = 0"
  shows "createOutputDir 3 1 d w = Inr (logEvent (Mkdir d) w\<lparr>dirs := (dirs w)(d := Some [])\<rparr>)"
  using assms
  by (simp add: createOutputDir_unfold existsSync_def mkdirSync_def logEvent_def)

lemma createOutputDir_1:
  assumes "dirs w d = None" "mkdirFaults w d = 1"
  shows "\<exists>w'. createOutputDir 3 1 d w = Inr w' \<and>
     trace w' = trace w @ [Mkdir d, Slept 500, Mkdir d] \<and>
     dirs w' = (dirs w)(d := Some []) \<and> mkdirFaults w' = (mkdirFaults w)(d := 0)"
  using assms
  by (simp add: createOutputDir_unfold existsSync_def mkdirSync_def logEvent_def sleep_def)

lemma createOutputDir_2:
  assumes "dirs w d = None" "mkdirFaults w d = 2"
  shows "\<exists>w'. createOutputDir 3 1 d w = Inr w' \<and>
     trace w' = trace w @ [Mkdir d, Slept 500, Mkdir d, Slept 1000, Mkdir d] \<and>
     dirs w' = (dirs w)(d := Some []) \<and> mkdirFaults w' = (mkdirFaults w)(d := 0)"
  using assms
  by (simp add: createOutputDir_unfold existsSync_def mkdirSync_def logEvent_def sleep_def)

lemma createOutputDir_3:
  assumes "dirs w d = None" "3 \<le> mkdirFaults w d"
  shows "\<exists>w'. createOutputDir 3 1 d w = Inl (MkdirFailed 3 (lit ''EIO''), w') \<and>
     trace w' = trace w @ [Mkdir d, Slept 500, Mkdir d, Slept 1000, Mkdir d] \<and>
     dirs w' = dirs w"
  using assms
  by (simp add: createOutputDir_unfold existsSync_def mkdirSync_def logEvent_def sleep_def)

subsection \<open>The two halves of a call\<close>

text \<open>
  \<open>processSingleVideo\<close> is its start followed by its continuation, so the two
  halves that the batch scheduler runs apart are the function of the source.
\<close>

lemma createOutputDir_start:
  "createOutputDir m a d w =
     (case createOutputDirStart m a d w of
        Finished w1 \<Rightarrow> Inr w1
      | Caught k msg w1 \<Rightarrow>
          if k = m then Inl (MkdirFailed m msg, w1)
          else createOutputDir m (Suc k) d (sleep (500 * k) w1))"
proof (induction m a d w rule: createOutputDirStart.induct)
  case (1 m a d w)
  show ?case
    apply (subst createOutputDir.simps)
    apply (subst createOutputDirStart.simps)
    using 1
    apply (auto split: sum.splits prod.splits attempted.splits)
    done
qed

lemma processSingleVideo_resumes:
  "processSingleVideo env vid idx tv out opts w =
     (case startVideo env vid idx tv out opts w of (s, w1) \<Rightarrow> resumeVideo env vid idx opts s w1)"
proof (cases "\<not> force opts \<and>
    0 < countExtractedFrames w (path_join env out (sanitizeFilename (name vid)))")
  case True
  then show ?thesis
    by (simp add: processSingleVideo_def startVideo_def resumeVideo_def Let_def)
next
  case False
  let ?d = "path_join env out (sanitizeFilename (name vid))"
  show ?thesis
  proof (cases "createOutputDirStart 3 1 ?d w")
    case (Finished w1)
    with False createOutputDir_start [of 3 1 ?d w] show ?thesis
      by (simp add: processSingleVideo_def startVideo_def resumeVideo_def extractVideo_def Let_def
          split: sum.splits prod.splits)
  next
    case (Caught k msg w1)
    with False createOutputDir_start [of 3 1 ?d w] show ?thesis
      by (simp add: processSingleVideo_def startVideo_def resumeVideo_def extractVideo_def Let_def
          split: sum.splits prod.splits)
  qed
qed

section \<open>Properties of the batch scheduler\<close>

lemma countExtractedFrames_cong:
  "dirs w' p = dirs w p \<Longrightarrow> countExtractedFrames w' p = countExtractedFrames w p"
  by (simp add: countExtractedFrames_def readdirSync_def)

lemma sleeps_append: "sleeps (xs @ ys) = sleeps xs @ sleeps ys"
  by (induction xs rule: sleeps.induct) auto

lemma js_slice_nat:
  "i \<le> length xs \<Longrightarrow> js_slice xs (int i) (int (min (i + c) (length xs))) = take c (drop i xs)"
  by (simp add: js_slice_def Let_def min_def nat_diff_distrib')

lemma writeFiles_frame:
  "mkdirFaults (writeFiles d fs w) = mkdirFaults w"
  "trace (writeFiles d fs w) = trace w"
  "p \<noteq> d \<Longrightarrow> dirs (writeFiles d fs w) p = dirs w p"
  by (simp_all add: writeFiles_def split: option.splits)

lemma extractFrames_world:
  "extractFrames env v d opts w = Inr w' \<or> extractFrames env v d opts w = Inl (e, w') \<Longrightarrow>
     w' = writeFiles d (written (ffmpeg env v d opts)) (logEvent (Ffmpeg v d) w)"
  by (cases "outcome (ffmpeg env v d opts)") (auto simp: extractFrames_def Let_def split: if_splits)

lemma extractFrames_ok:
  "(\<exists>w'. extractFrames env v d opts w = Inr w') = exitOk (outcome (ffmpeg env v d opts))"
  by (auto simp: extractFrames_def Let_def split: exit.splits)

lemmas createOutputDirStart_unfold =
  createOutputDirStart.simps [of 3 "Suc 0"] createOutputDirStart.simps [of 3 "Suc (Suc 0)"]
  createOutputDirStart.simps [of 3 "Suc (Suc (Suc 0))"]

lemma createOutputDirStart_no_fault:
  assumes "mkdirFaults w d = 0"
  shows "\<exists>w1. createOutputDirStart 3 1 d w = Finished w1 \<and> mkdirFaults w1 = mkdirFaults w \<and>
           sleeps (trace w1) = sleeps (trace w) \<and> (\<forall>p. p \<noteq> d \<longrightarrow> dirs w1 p = dirs w p) \<and>
           (\<forall>p. countExtractedFrames w1 p = countExtractedFrames w p)"
proof (cases "dirs w d")
  case None
  with assms show ?thesis
    by (simp add: createOutputDirStart_unfold existsSync_def mkdirSync_def logEvent_def
        sleeps_append countExtractedFrames_def readdirSync_def)
next
  case (Some fs)
  then show ?thesis
    by (simp add: createOutputDirStart_unfold existsSync_def)
qed

lemma extractVideo_world:
  "snd (extractVideo env v i opts d t w) =
     writeFiles d (written (ffmpeg env (path v) d opts))
       (logEvent (Ffmpeg (path v) d) (logEvent (Ffprobe (path v)) (sleep (100 * i) w)))"
  by (cases "outcome (ffmpeg env (path v) d opts)")
     (simp_all add: extractVideo_def extractFrames_def getVideoDuration_def Let_def)

lemma extractVideo_result:
  "\<not> cached (fst (extractVideo env v i opts d t w))"
  "resultVideo (fst (extractVideo env v i opts d t w)) = v"
  "success (fst (extractVideo env v i opts d t w)) = exitOk (outcome (ffmpeg env (path v) d opts))"
  by (cases "outcome (ffmpeg env (path v) d opts)";
      simp add: extractVideo_def extractFrames_def getVideoDuration_def Let_def)+

lemma extractVideo_frame:
  "mkdirFaults (snd (extractVideo env v i opts d t w)) = mkdirFaults w"
  "sleeps (trace (snd (extractVideo env v i opts d t w))) = sleeps (trace w) @ [100 * i]"
  "p \<noteq> d \<Longrightarrow> dirs (snd (extractVideo env v i opts d t w)) p = dirs w p"
  "trace (snd (extractVideo env v i opts d t w)) =
     trace w @ [Slept (100 * i), Ffprobe (path v), Ffmpeg (path v) d]"
  unfolding extractVideo_world
  by (simp_all add: writeFiles_frame logEvent_def sleep_def sleeps_append)

lemma cacheHit_cong:
  "\<forall>p. countExtractedFrames w1 p = countExtractedFrames w p \<Longrightarrow>
     cacheHit env out opts w1 = cacheHit env out opts w"
  by (rule ext) (simp add: cacheHit_def)

lemma startVideo_no_fault:
  assumes "mkdirFaults w = (\<lambda>_. 0)"
  shows "\<exists>s w1. startVideo env v i tv out opts w = (s, w1) \<and> mkdirFaults w1 = (\<lambda>_. 0) \<and>
           sleeps (trace w1) = sleeps (trace w) \<and>
           (\<forall>p. p \<noteq> outputDirOf env out v \<longrightarrow> dirs w1 p = dirs w p) \<and>
           (\<forall>p. countExtractedFrames w1 p = countExtractedFrames w p) \<and>
           startedAs env out opts w v s"
proof (cases "cacheHit env out opts w v")
  case True
  with assms show ?thesis
    by (simp add: startVideo_def startedAs_def cacheHit_def outputDirOf_def Let_def)
next
  case False
  from assms have "mkdirFaults w (outputDirOf env out v) = 0" by simp
  from createOutputDirStart_no_fault [OF this] obtain w1 where
    c: "createOutputDirStart 3 1 (outputDirOf env out v) w = Finished w1"
    and f: "mkdirFaults w1 = mkdirFaults w"
    and s: "sleeps (trace w1) = sleeps (trace w)"
    and d: "\<forall>p. p \<noteq> outputDirOf env out v \<longrightarrow> dirs w1 p = dirs w p"
    and n: "\<forall>p. countExtractedFrames w1 p = countExtractedFrames w p"
    by (elim exE conjE) (rule that)
  have run: "startVideo env v i tv out opts w =
      (Staggering (outputDirOf env out v) (clock env (trace w)), w1)"
    using False c by (simp add: startVideo_def cacheHit_def outputDirOf_def Let_def)
  have f': "mkdirFaults w1 = (\<lambda>_. 0)" using f assms by simp
  have st: "startedAs env out opts w v (Staggering (outputDirOf env out v) (clock env (trace w)))"
    using False by (simp add: startedAs_def)
  show ?thesis
    by (intro exI [of _ "Staggering (outputDirOf env out v) (clock env (trace w))"]
        exI [of _ w1] conjI) (rule run f' s d n st)+
qed

lemma startBatch_no_fault:
  assumes "mkdirFaults w = (\<lambda>_. 0)"
  shows "\<exists>ss w1. startBatch env vs i tv out opts w = (ss, w1) \<and> mkdirFaults w1 = (\<lambda>_. 0) \<and>
           sleeps (trace w1) = sleeps (trace w) \<and>
           (\<forall>p. p \<notin> outputDirOf env out ` set vs \<longrightarrow> dirs w1 p = dirs w p) \<and>
           (\<forall>p. countExtractedFrames w1 p = countExtractedFrames w p) \<and>
           list_all2 (startedAs env out opts w) vs ss"
  using assms
proof (induction vs arbitrary: i w)
  case Nil
  then show ?case by simp
next
  case (Cons v vs)
  from startVideo_no_fault [OF Cons.prems, of env v i tv out opts]
  obtain s w1 where a: "startVideo env v i tv out opts w = (s, w1)"
    and f1: "mkdirFaults w1 = (\<lambda>_. 0)"
    and s1: "sleeps (trace w1) = sleeps (trace w)"
    and d1: "\<forall>p. p \<noteq> outputDirOf env out v \<longrightarrow> dirs w1 p = dirs w p"
    and n1: "\<forall>p. countExtractedFrames w1 p = countExtractedFrames w p"
    and r1: "startedAs env out opts w v s"
    by (elim exE conjE) (rule that)
  from Cons.IH [OF f1, of "Suc i"]
  obtain ss w2 where b: "startBatch env vs (Suc i) tv out opts w1 = (ss, w2)"
    and f2: "mkdirFaults w2 = (\<lambda>_. 0)"
    and s2: "sleeps (trace w2) = sleeps (trace w1)"
    and d2: "\<forall>p. p \<notin> outputDirOf env out ` set vs \<longrightarrow> dirs w2 p = dirs w1 p"
    and n2: "\<forall>p. countExtractedFrames w2 p = countExtractedFrames w1 p"
    and r2: "list_all2 (startedAs env out opts w1) vs ss"
    by (elim exE conjE) (rule that)
  have run: "startBatch env (v # vs) i tv out opts w = (s # ss, w2)"
    using a b by simp
  have sl: "sleeps (trace w2) = sleeps (trace w)" using s1 s2 by simp
  have fr: "\<forall>p. p \<notin> outputDirOf env out ` set (v # vs) \<longrightarrow> dirs w2 p = dirs w p"
    using d1 d2 by simp
  have cn: "\<forall>p. countExtractedFrames w2 p = countExtractedFrames w p"
    using n1 n2 by simp
  have "startedAs env out opts w1 = startedAs env out opts w"
    by (intro ext) (simp only: startedAs_def cacheHit_cong [OF n1])
  with r1 r2 have rel: "list_all2 (startedAs env out opts w) (v # vs) (s # ss)" by simp
  show ?case
    by (intro exI [of _ "s # ss"] exI [of _ w2] conjI) (rule run f2 sl fr cn rel)+
qed

lemma promiseAll_results: "promiseAll (map Inr rs) = Inr rs"
  by (induction rs) simp_all

lemma resumeBatch_ready:
  assumes "list_all2 (startedAs env out opts w0) vs ss"
  shows "\<exists>rs w'. resumeBatch env vs ss i opts w = (map Inr rs, w') \<and>
           mkdirFaults w' = mkdirFaults w \<and>
           map cached rs = map (cacheHit env out opts w0) vs \<and>
           list_all2 (outcomeOf env out opts) rs vs \<and>
           sleeps (trace w') = sleeps (trace w) @ staggerWaits i rs \<and>
           (\<forall>p. p \<notin> outputDirOf env out ` set vs \<longrightarrow> dirs w' p = dirs w p)"
  using assms
proof (induction vs ss arbitrary: i w rule: list_all2_induct)
  case Nil
  show ?case by simp
next
  case (Cons v vs s ss)
  have "\<exists>r w1. resumeVideo env v i opts s w = Inr (r, w1) \<and> mkdirFaults w1 = mkdirFaults w \<and>
      cached r = cacheHit env out opts w0 v \<and> outcomeOf env out opts r v \<and>
      sleeps (trace w1) = sleeps (trace w) @ staggerWaits i [r] \<and>
      (\<forall>p. p \<noteq> outputDirOf env out v \<longrightarrow> dirs w1 p = dirs w p)"
  proof (cases s)
    case (Answered r)
    with Cons.hyps(1) show ?thesis
      by (simp add: startedAs_def resumeVideo_def outcomeOf_def cacheHit_def)
  next
    case (Staggering d t)
    with Cons.hyps(1) have h: "\<not> cacheHit env out opts w0 v" and d: "d = outputDirOf env out v"
      by (simp_all add: startedAs_def)
    let ?x = "extractVideo env v i opts d t w"
    have run: "resumeVideo env v i opts s w = Inr (fst ?x, snd ?x)"
      using Staggering by (simp add: resumeVideo_def)
    have f: "mkdirFaults (snd ?x) = mkdirFaults w" by (rule extractVideo_frame)
    have c: "cached (fst ?x) = cacheHit env out opts w0 v"
      using h extractVideo_result(1) [of env v i opts d t w] by simp
    have o: "outcomeOf env out opts (fst ?x) v"
      using extractVideo_result [of env v i opts d t w] d
      by (simp add: outcomeOf_def extracts_def)
    have sl: "sleeps (trace (snd ?x)) = sleeps (trace w) @ staggerWaits i [fst ?x]"
      using extractVideo_result(1) [of env v i opts d t w]
      by (simp add: extractVideo_frame(2))
    have fr: "\<forall>p. p \<noteq> outputDirOf env out v \<longrightarrow> dirs (snd ?x) p = dirs w p"
      using d by (simp add: extractVideo_frame(3))
    show ?thesis
      by (intro exI [of _ "fst ?x"] exI [of _ "snd ?x"] conjI) (rule run f c o sl fr)+
  next
    case (Rejected e)
    with Cons.hyps(1) show ?thesis by (simp add: startedAs_def)
  next
    case (Retrying d t k)
    with Cons.hyps(1) show ?thesis by (simp add: startedAs_def)
  qed
  then obtain r w1 where a: "resumeVideo env v i opts s w = Inr (r, w1)"
    and f1: "mkdirFaults w1 = mkdirFaults w"
    and c1: "cached r = cacheHit env out opts w0 v"
    and o1: "outcomeOf env out opts r v"
    and s1: "sleeps (trace w1) = sleeps (trace w) @ staggerWaits i [r]"
    and d1: "\<forall>p. p \<noteq> outputDirOf env out v \<longrightarrow> dirs w1 p = dirs w p"
    by (elim exE conjE) (rule that)
  from Cons.IH [of "Suc i" w1]
  obtain rs w2 where b: "resumeBatch env vs ss (Suc i) opts w1 = (map Inr rs, w2)"
    and f2: "mkdirFaults w2 = mkdirFaults w1"
    and c2: "map cached rs = map (cacheHit env out opts w0) vs"
    and o2: "list_all2 (outcomeOf env out opts) rs vs"
    and s2: "sleeps (trace w2) = sleeps (trace w1) @ staggerWaits (Suc i) rs"
    and d2: "\<forall>p. p \<notin> outputDirOf env out ` set vs \<longrightarrow> dirs w2 p = dirs w1 p"
    by (elim exE conjE) (rule that)
  have run: "resumeBatch env (v # vs) (s # ss) i opts w = (map Inr (r # rs), w2)"
    using a b by simp
  have f: "mkdirFaults w2 = mkdirFaults w" using f1 f2 by simp
  have c: "map cached (r # rs) = map (cacheHit env out opts w0) (v # vs)" using c1 c2 by simp
  have o: "list_all2 (outcomeOf env out opts) (r # rs) (v # vs)" using o1 o2 by simp
  have sl: "sleeps (trace w2) = sleeps (trace w) @ staggerWaits i (r # rs)"
    using s1 s2 by simp
  have fr: "\<forall>p. p \<notin> outputDirOf env out ` set (v # vs) \<longrightarrow> dirs w2 p = dirs w p"
    using d1 d2 by simp
  show ?case
    by (intro exI [of _ "r # rs"] exI [of _ w2] conjI) (rule run f c o sl fr)+
qed

lemma runBatch_no_fault:
  assumes "mkdirFaults w = (\<lambda>_. 0)"
  shows "\<exists>rs w'. runBatch env vs i tv out opts w = Inr (rs, w') \<and>
           mkdirFaults w' = (\<lambda>_. 0) \<and>
           map cached rs = map (cacheHit env out opts w) vs \<and>
           list_all2 (outcomeOf env out opts) rs vs \<and>
           sleeps (trace w') = sleeps (trace w) @ staggerWaits i rs \<and>
           (\<forall>p. p \<notin> outputDirOf env out ` set vs \<longrightarrow> dirs w' p = dirs w p)"
proof -
  from startBatch_no_fault [OF assms, of env vs i tv out opts]
  obtain ss w1 where a: "startBatch env vs i tv out opts w = (ss, w1)"
    and f1: "mkdirFaults w1 = (\<lambda>_. 0)"
    and s1: "sleeps (trace w1) = sleeps (trace w)"
    and d1: "\<forall>p. p \<notin> outputDirOf env out ` set vs \<longrightarrow> dirs w1 p = dirs w p"
    and r1: "list_all2 (startedAs env out opts w) vs ss"
    by (elim exE conjE) (rule that)
  from resumeBatch_ready [OF r1, of i w1]
  obtain rs w2 where b: "resumeBatch env vs ss i opts w1 = (map Inr rs, w2)"
    and f2: "mkdirFaults w2 = mkdirFaults w1"
    and c2: "map cached rs = map (cacheHit env out opts w) vs"
    and o2: "list_all2 (outcomeOf env out opts) rs vs"
    and s2: "sleeps (trace w2) = sleeps (trace w1) @ staggerWaits i rs"
    and d2: "\<forall>p. p \<notin> outputDirOf env out ` set vs \<longrightarrow> dirs w2 p = dirs w1 p"
    by (elim exE conjE) (rule that)
  have run: "runBatch env vs i tv out opts w = Inr (rs, w2)"
    using a b by (simp add: runBatch_def promiseAll_results)
  have f: "mkdirFaults w2 = (\<lambda>_. 0)" using f1 f2 by simp
  have sl: "sleeps (trace w2) = sleeps (trace w) @ staggerWaits i rs" using s1 s2 by simp
  have fr: "\<forall>p. p \<notin> outputDirOf env out ` set vs \<longrightarrow> dirs w2 p = dirs w p"
    using d1 d2 by simp
  show ?thesis
    by (intro exI [of _ rs] exI [of _ w2] conjI) (rule run f c2 o2 sl fr)+
qed

lemma tally_counts:
  "results (tally t r) = results t @ [r]"
  "completed (tally t r) = Suc (completed t)"
  "successCount (tally t r) = successCount t + (if success r \<and> \<not> cached r then 1 else 0)"
  "cachedCount (tally t r) = cachedCount t + (if cached r then 1 else 0)"
  "failCount (tally t r) = failCount t + (if success r then 0 else 1)"
  "totalFrames t \<le> totalFrames (tally t r)"
  by (cases r; simp add: Let_def)+

lemma foldl_tally_counts:
  "results (foldl tally t rs) = results t @ rs"
  "completed (foldl tally t rs) = completed t + length rs"
  "successCount (foldl tally t rs) =
     successCount t + length (filter (\<lambda>r. success r \<and> \<not> cached r) rs)"
  "cachedCount (foldl tally t rs) = cachedCount t + length (filter cached rs)"
  "failCount (foldl tally t rs) = failCount t + length (filter (\<lambda>r. \<not> success r) rs)"
  "totalFrames t \<le> totalFrames (foldl tally t rs)"
proof (induction rs arbitrary: t)
  case Nil
  {
    case 1 show ?case by simp
  next
    case 2 show ?case by simp
  next
    case 3 show ?case by simp
  next
    case 4 show ?case by simp
  next
    case 5 show ?case by simp
  next
    case 6 show ?case by simp
  }
next
  case (Cons r rs)
  {
    case 1 show ?case by (simp add: Cons.IH tally_counts)
  next
    case 2 show ?case by (simp add: Cons.IH tally_counts)
  next
    case 3 show ?case by (simp add: Cons.IH tally_counts)
  next
    case 4 show ?case by (simp add: Cons.IH tally_counts)
  next
    case 5 show ?case by (simp add: Cons.IH tally_counts)
  next
    case 6 show ?case using Cons.IH(6) [of "tally t r"] tally_counts(6) [of t r] by simp
  }
qed

lemma success_cached_split:
  "length (filter (\<lambda>r. success r \<and> \<not> cached r) rs) + length (filter cached rs) +
   length (filter (\<lambda>r. \<not> success r) rs) = length rs"
proof (induction rs)
  case Nil
  show ?case by simp
next
  case (Cons r rs)
  then show ?case by (cases r) auto
qed

lemma staggerWaits_append:
  "staggerWaits i (rs @ rs') = staggerWaits i rs @ staggerWaits (i + length rs) rs'"
  by (induction rs arbitrary: i) simp_all

lemma cacheHit_frame:
  "dirs w1 (outputDirOf env out v) = dirs w (outputDirOf env out v) \<Longrightarrow>
     cacheHit env out opts w1 v = cacheHit env out opts w v"
  by (simp add: cacheHit_def countExtractedFrames_def readdirSync_def)

lemma batchLoop_no_fault:
  assumes "mkdirFaults w = (\<lambda>_. 0)" "1 \<le> c" "length videos - i \<le> fuel"
  shows "\<exists>rs w'. batchLoop fuel env videos out opts c i t w = Returned (foldl tally t rs, w') \<and>
           mkdirFaults w' = (\<lambda>_. 0) \<and>
           list_all2 (outcomeOf env out opts) rs (drop i videos) \<and>
           sleeps (trace w') = sleeps (trace w) @ staggerWaits i rs \<and>
           map cached (take c rs) = map (cacheHit env out opts w) (take c (drop i videos)) \<and>
           (distinct (map (outputDirOf env out) (drop i videos)) \<longrightarrow>
              map cached rs = map (cacheHit env out opts w) (drop i videos))"
  using assms
proof (induction fuel arbitrary: i t w)
  case 0
  then have "length videos \<le> i" by simp
  then show ?case using 0 by (intro exI [of _ "[]"]) simp
next
  case (Suc fuel)
  show ?case
  proof (cases "i < length videos")
    case False
    then show ?thesis using Suc.prems by (intro exI [of _ "[]"]) simp
  next
    case True
    let ?batch = "take c (drop i videos)"
    let ?rest = "drop (i + c) videos"
    have sl: "js_slice videos (int i) (int (min (i + c) (length videos))) = ?batch"
      using True by (simp add: js_slice_nat)
    from runBatch_no_fault [OF Suc.prems(1), of env ?batch i "length videos" out opts]
    obtain rs w1 where b: "runBatch env ?batch i (length videos) out opts w = Inr (rs, w1)"
      and f1: "mkdirFaults w1 = (\<lambda>_. 0)"
      and c1: "map cached rs = map (cacheHit env out opts w) ?batch"
      and o1: "list_all2 (outcomeOf env out opts) rs ?batch"
      and s1: "sleeps (trace w1) = sleeps (trace w) @ staggerWaits i rs"
      and d1: "\<forall>p. p \<notin> outputDirOf env out ` set ?batch \<longrightarrow> dirs w1 p = dirs w p"
      by (elim exE conjE) (rule that)
    have fuel: "length videos - (i + c) \<le> fuel" using Suc.prems True by simp
    from Suc.IH [OF f1 Suc.prems(2) fuel, of "foldl tally t rs"]
    obtain rs' w2 where
      l: "batchLoop fuel env videos out opts c (i + c) (foldl tally t rs) w1 =
            Returned (foldl tally (foldl tally t rs) rs', w2)"
      and f2: "mkdirFaults w2 = (\<lambda>_. 0)"
      and o2: "list_all2 (outcomeOf env out opts) rs' ?rest"
      and s2: "sleeps (trace w2) = sleeps (trace w1) @ staggerWaits (i + c) rs'"
      and c2: "distinct (map (outputDirOf env out) ?rest) \<longrightarrow>
                 map cached rs' = map (cacheHit env out opts w1) ?rest"
      by (elim exE conjE) (rule that)
    have split: "drop i videos = ?batch @ ?rest"
      by (metis add.commute append_take_drop_id drop_drop)
    from o1 have len1: "length rs = length ?batch" by (rule list_all2_lengthD)
    from o2 have len2: "length rs' = length ?rest" by (rule list_all2_lengthD)
    have full: "length rs = c \<or> rs' = []"
    proof (cases "i + c \<le> length videos")
      case True
      with len1 show ?thesis by simp
    next
      case False
      with len2 show ?thesis by simp
    qed
    have run: "batchLoop (Suc fuel) env videos out opts c i t w =
        Returned (foldl tally t (rs @ rs'), w2)"
      using True sl b l by (simp add: Let_def)
    have out: "list_all2 (outcomeOf env out opts) (rs @ rs') (drop i videos)"
      using list_all2_appendI [OF o1 o2] by (simp only: split [symmetric])
    have waits: "sleeps (trace w2) = sleeps (trace w) @ staggerWaits i (rs @ rs')"
    proof -
      from full have "staggerWaits (i + c) rs' = staggerWaits (i + length rs) rs'" by auto
      with s1 s2 show ?thesis by (simp add: staggerWaits_append)
    qed
    have first: "map cached (take c (rs @ rs')) = map (cacheHit env out opts w) ?batch"
    proof -
      from len1 have "length rs \<le> c" by simp
      with full have "take c (rs @ rs') = rs" by auto
      with c1 show ?thesis by simp
    qed
    have dist: "distinct (map (outputDirOf env out) (drop i videos)) \<longrightarrow>
        map cached (rs @ rs') = map (cacheHit env out opts w) (drop i videos)"
    proof
      assume "distinct (map (outputDirOf env out) (drop i videos))"
      then have d: "distinct (map (outputDirOf env out) (?batch @ ?rest))"
        by (simp only: split [symmetric])
      then have dr: "distinct (map (outputDirOf env out) ?rest)" by simp
      have "cacheHit env out opts w1 v = cacheHit env out opts w v" if "v \<in> set ?rest" for v
      proof -
        from d have "outputDirOf env out ` set ?batch \<inter> outputDirOf env out ` set ?rest = {}"
          by simp
        moreover from that have "outputDirOf env out v \<in> outputDirOf env out ` set ?rest"
          by (rule imageI)
        ultimately have "outputDirOf env out v \<notin> outputDirOf env out ` set ?batch" by blast
        with d1 have "dirs w1 (outputDirOf env out v) = dirs w (outputDirOf env out v)" by simp
        then show ?thesis by (rule cacheHit_frame)
      qed
      then have "map (cacheHit env out opts w1) ?rest = map (cacheHit env out opts w) ?rest"
        by simp
      with c2 dr have "map cached rs' = map (cacheHit env out opts w) ?rest" by simp
      with c1 have "map cached (rs @ rs') = map (cacheHit env out opts w) (?batch @ ?rest)"
        by simp
      then show "map cached (rs @ rs') = map (cacheHit env out opts w) (drop i videos)"
        by (simp only: split [symmetric])
    qed
    show ?thesis
      by (intro exI [of _ "rs @ rs'"] exI [of _ w2] conjI) (rule run f2 out waits first dist)+
  qed
qed

lemma batchLoop_returns_fold:
  "batchLoop fuel env videos out opts c i t w = Returned (t', w') \<Longrightarrow> \<exists>rs. t' = foldl tally t rs"
proof (induction fuel arbitrary: i t w)
  case 0
  then show ?case by (intro exI [of _ "[]"]) (simp split: if_splits)
next
  case (Suc fuel)
  show ?case
  proof (cases "i < length videos")
    case False
    with Suc.prems show ?thesis by (intro exI [of _ "[]"]) simp
  next
    case True
    let ?b = "js_slice videos (int i) (int (min (i + c) (length videos)))"
    from Suc.prems True obtain rs w1 where
      b: "runBatch env ?b i (length videos) out opts w = Inr (rs, w1)"
      and l: "batchLoop fuel env videos out opts c (i + c) (foldl tally t rs) w1 = Returned (t', w')"
      by (auto simp: Let_def split: sum.splits prod.splits)
    from Suc.IH [OF l] obtain rs' where "t' = foldl tally (foldl tally t rs) rs'" by blast
    then have "t' = foldl tally t (rs @ rs')" by simp
    then show ?thesis by blast
  qed
qed

lemma processVideosParallel_no_fault:
  assumes "mkdirFaults w = (\<lambda>_. 0)" "1 \<le> c" "length videos \<le> fuel"
  shows "\<exists>t w'. processVideosParallel fuel env videos out opts c w = Returned (t, w') \<and>
           t = foldl tally initialTotals (results t) \<and>
           list_all2 (outcomeOf env out opts) (results t) videos \<and>
           sleeps (trace w') = sleeps (trace w) @ staggerWaits 0 (results t) \<and>
           map cached (take c (results t)) = map (cacheHit env out opts w) (take c videos) \<and>
           (distinct (map (outputDirOf env out) videos) \<longrightarrow>
              map cached (results t) = map (cacheHit env out opts w) videos)"
proof -
  from assms(3) have "length videos - 0 \<le> fuel" by simp
  from batchLoop_no_fault [OF assms(1,2) this, of env out opts initialTotals]
  obtain rs w' where
    r: "batchLoop fuel env videos out opts c 0 initialTotals w =
          Returned (foldl tally initialTotals rs, w')"
    and o: "list_all2 (outcomeOf env out opts) rs (drop 0 videos)"
    and s: "sleeps (trace w') = sleeps (trace w) @ staggerWaits 0 rs"
    and f: "map cached (take c rs) = map (cacheHit env out opts w) (take c (drop 0 videos))"
    and d: "distinct (map (outputDirOf env out) (drop 0 videos)) \<longrightarrow>
              map cached rs = map (cacheHit env out opts w) (drop 0 videos)"
    by (elim exE conjE) (rule that)
  have res: "results (foldl tally initialTotals rs) = rs"
    by (simp add: foldl_tally_counts initialTotals_def)
  show ?thesis
    unfolding processVideosParallel_def
    by (intro exI [of _ "foldl tally initialTotals rs"] exI [of _ w'] conjI)
       (use r o s f d res in simp_all)
qed

section \<open>The example run\<close>

lemma sanitize_A: "sanitizeFilename (lit ''A'') = lit ''A''"
  by (simp add: sanitize_eval)
lemma sanitize_B: "sanitizeFilename (lit ''B'') = lit ''B''"
  by (simp add: sanitize_eval)
lemma sanitize_C: "sanitizeFilename (lit ''C'') = lit ''C''"
  by (simp add: sanitize_eval)

lemma dir_A: "outputDirOf exampleEnv (lit ''/out'') videoA = lit ''/out/A''"
  by (simp add: outputDirOf_def exampleEnv_def videoA_def sanitize_A joinPath_def) (simp add: lit_def)
lemma dir_B: "outputDirOf exampleEnv (lit ''/out'') videoB = lit ''/out/B''"
  by (simp add: outputDirOf_def exampleEnv_def videoB_def sanitize_B joinPath_def) (simp add: lit_def)
lemma dir_C: "outputDirOf exampleEnv (lit ''/out'') videoC = lit ''/out/C''"
  by (simp add: outputDirOf_def exampleEnv_def videoC_def sanitize_C joinPath_def) (simp add: lit_def)

lemma example_dirs_differ:
  "lit ''/out/A'' \<noteq> lit ''/out/B''" "lit ''/out/A'' \<noteq> lit ''/out/C''"
  "lit ''/out/B'' \<noteq> lit ''/out/C''" "lit ''/out/A'' \<noteq> lit ''/out''"
  "lit ''/out/B'' \<noteq> lit ''/out''" "lit ''/out/C'' \<noteq> lit ''/out''"
  by (simp_all add: lit_def)

lemma example_extracts:
  "extracts exampleEnv (lit ''/out'') exampleOptions videoA"
  "\<not> extracts exampleEnv (lit ''/out'') exampleOptions videoB"
  "extracts exampleEnv (lit ''/out'') exampleOptions videoC"
  by (simp_all add: extracts_def exampleEnv_def exampleFfmpeg_def videoA_def videoB_def
      videoC_def lit_def)

lemma dir_A2: "outputDirOf exampleEnv (lit ''/out'') videoA2 = lit ''/out/A''"
  by (simp add: outputDirOf_def exampleEnv_def videoA2_def sanitize_A joinPath_def) (simp add: lit_def)

lemma example_dirs:
  "path_join exampleEnv (lit ''/out'') (sanitizeFilename (name videoA)) = lit ''/out/A''"
  "path_join exampleEnv (lit ''/out'') (sanitizeFilename (name videoB)) = lit ''/out/B''"
  "path_join exampleEnv (lit ''/out'') (sanitizeFilename (name videoC)) = lit ''/out/C''"
  "path_join exampleEnv (lit ''/out'') (sanitizeFilename (name videoA2)) = lit ''/out/A''"
  using dir_A dir_B dir_C dir_A2 by (simp_all add: outputDirOf_def)

lemma example_paths_in:
  "path videoA = lit ''/in/A.mp4''" "path videoB = lit ''/in/B.mp4''"
  "path videoC = lit ''/in/C.mp4''" "path videoA2 = lit ''/in2/A.mp4''"
  by (simp_all add: videoA_def videoB_def videoC_def videoA2_def)

lemma example_ffmpeg:
  "ffmpeg exampleEnv (lit ''/in/A.mp4'') d opts =
     \<lparr>written = [lit ''frame_000001.png'', lit ''frame_000002.png''], outcome = Closed 0 []\<rparr>"
  "ffmpeg exampleEnv (lit ''/in/B.mp4'') d opts =
     \<lparr>written = [], outcome = Closed 1 (lit ''Invalid data'')\<rparr>"
  "ffmpeg exampleEnv (lit ''/in/C.mp4'') d opts =
     \<lparr>written = [lit ''frame_000001.png'', lit ''frame_000002.png''], outcome = Closed 0 []\<rparr>"
  "ffmpeg exampleEnv (lit ''/in2/A.mp4'') d opts =
     \<lparr>written = [lit ''frame_000001.png'', lit ''frame_000002.png''], outcome = Closed 0 []\<rparr>"
  by (simp_all add: exampleEnv_def exampleFfmpeg_def lit_def)

lemma example_probe: "ffprobe exampleEnv p = None"
  by (simp add: exampleEnv_def)

theorem cached_video_is_skipped_witness:
  "\<not> force exampleOptions \<and>
   dirs extractedWorld (outputDirOf exampleEnv (lit ''/out'') videoA) =
     Some [lit ''frame_000001.png'', lit ''frame_000002.png'', lit ''frame_000003.png'',
           lit ''notes.txt''] \<and>
   processSingleVideo exampleEnv videoA 0 1 (lit ''/out'') exampleOptions extractedWorld =
     Inr (Success True videoA 0 3 (lit ''0.00'') None (lit ''/out/A''), extractedWorld)"
proof -
  let ?files = "[lit ''frame_000001.png'', lit ''frame_000002.png'', lit ''frame_000003.png'',
           lit ''notes.txt'']"
  have f: "\<not> force exampleOptions" by (simp add: exampleOptions_def)
  have d: "dirs extractedWorld (outputDirOf exampleEnv (lit ''/out'') videoA) = Some ?files"
    by (simp add: dir_A extractedWorld_def)
  have n: "(3::nat) = length (filter (\<lambda>f. endsWith f (lit ''.png'')) ?files)"
    by (simp add: endsWith_def lit_def)
  have "(1::nat) \<le> 3" by simp
  from cached_video_is_skipped [OF f d n this, of 0 1] f d show ?thesis
    by (simp add: dir_A)
qed

lemma cached_success: "cached r \<Longrightarrow> success r"
  by (cases r) simp_all

lemma three_outcomes:
  assumes "list_all2 (outcomeOf env out opts) rs [a, b, c]"
  shows "\<exists>ra rb rc. rs = [ra, rb, rc] \<and> outcomeOf env out opts ra a \<and>
           outcomeOf env out opts rb b \<and> outcomeOf env out opts rc c"
  using assms by (auto simp: list_all2_Cons2)

lemma two_outcomes:
  assumes "list_all2 (outcomeOf env out opts) rs [a, b]"
  shows "\<exists>ra rb. rs = [ra, rb] \<and> outcomeOf env out opts ra a \<and> outcomeOf env out opts rb b"
  using assms by (auto simp: list_all2_Cons2)

lemma example_distinct:
  "distinct (map (outputDirOf exampleEnv (lit ''/out'')) [videoA, videoB, videoC])"
  by (simp add: dir_A dir_B dir_C example_dirs_differ)

lemma example_frames:
  "endsWith (lit ''frame_000001.png'') (lit ''.png'')"
  "endsWith (lit ''frame_000002.png'') (lit ''.png'')"
  "endsWith (lit ''frame_000003.png'') (lit ''.png'')"
  "\<not> endsWith (lit ''notes.txt'') (lit ''.png'')"
  by (simp_all add: endsWith_def lit_def)

lemma example_shared:
  "map (cacheHit exampleEnv (lit ''/out'') exampleOptions freshWorld) [videoA, videoA2] =
     [False, False]"
  "extracts exampleEnv (lit ''/out'') exampleOptions videoA2"
  by (simp_all add: cacheHit_def dir_A dir_A2 example_dirs_differ countExtractedFrames_def
      readdirSync_def freshWorld_def extracts_def example_paths_in example_ffmpeg)

lemma example_hits:
  "map (cacheHit exampleEnv (lit ''/out'') exampleOptions freshWorld) [videoA, videoB, videoC] =
     [False, False, False]"
  "map (cacheHit exampleEnv (lit ''/out'') exampleOptions extractedWorld)
     [videoA, videoB, videoC] = [True, False, False]"
  by (simp_all add: cacheHit_def dir_A dir_B dir_C example_dirs_differ
      example_dirs_differ [symmetric] countExtractedFrames_def readdirSync_def freshWorld_def
      extractedWorld_def exampleOptions_def example_frames)

lemma example_frames_differ:
  "lit ''frame_000001.png'' \<noteq> lit ''frame_000002.png''"
  "lit ''frame_000002.png'' \<noteq> lit ''frame_000001.png''"
  by (simp_all add: lit_def)

lemma batchLoop_numeral:
  "batchLoop (numeral k) env videos out opts c i t w =
     (if i < length videos then
        (case runBatch env (js_slice videos (int i) (int (min (i + c) (length videos)))) i
                (length videos) out opts w of
           Inl (e, w1) \<Rightarrow> Threw e w1
         | Inr (batchResults, w1) \<Rightarrow>
             batchLoop (pred_numeral k) env videos out opts c (i + c)
               (foldl tally t batchResults) w1)
      else Returned (t, w))"
  by (simp add: numeral_eq_Suc Let_def)

lemmas run_eval =
  processVideosParallel_def batchLoop_numeral js_slice_def runBatch_def startVideo_def
  resumeVideo_def extractVideo_def Let_def example_dirs example_paths_in example_ffmpeg
  example_probe example_dirs_differ example_dirs_differ [symmetric] example_frames
  countExtractedFrames_def readdirSync_def faultyWorld_def freshWorld_def extractedWorld_def
  createOutputDirStart_unfold createOutputDir_unfold existsSync_def mkdirSync_def
  logEvent_def sleep_def getVideoDuration_def extractFrames_def writeFiles_def
  exampleOptions_def initialTotals_def

text \<open>
  Two videos of one name share an output directory. In one batch both are started
  before either is extracted, and both are extracted; in batches of one the second
  is answered from the cache, out of the frames of the first.
\<close>

lemma shared_directory_runs:
  "map_option (\<lambda>(t, w'). (map cached (results t), successCount t, cachedCount t))
     (returned (processVideosParallel 1 exampleEnv [videoA, videoA2] (lit ''/out'')
        exampleOptions 2 freshWorld)) = Some ([False, False], 2, 0)"
  "map_option (\<lambda>(t, w'). (map cached (results t), successCount t, cachedCount t))
     (returned (processVideosParallel 2 exampleEnv [videoA, videoA2] (lit ''/out'')
        exampleOptions 1 freshWorld)) = Some ([False, True], 1, 1)"
  by (simp_all add: run_eval example_frames_differ)

section \<open>Isolation of extraction failures\<close>

text \<open>
  C2. In a world where the creation of directories does not fail, a run of the batch
  scheduler over any list of videos returns, whatever the runs of \<open>ffmpeg\<close> do and
  whatever the output directories hold, with one outcome per video in the order of
  the list. An outcome that is not cached is a failure exactly when the run of
  \<open>ffmpeg\<close> for its own video does not exit with code 0, so a failing video costs
  no other video its outcome; an outcome is cached only with \<open>force\<close> off. The
  outcomes of the first batch are cached exactly for the videos whose cache test
  holds at the start of the run, and so are all outcomes when the output
  directories of the videos differ from one another. \<open>successCount\<close>,
  \<open>cachedCount\<close> and \<open>failCount\<close> are the numbers of outcomes that are successes
  and not cached, that are cached, and that are failures, and they add up to the
  number of videos. For the batch \<open>[A, B, C]\<close> where only \<open>B\<close> fails the totals are
  \<open>successCount = 2\<close> and \<open>failCount = 1\<close>, with three outcomes; where the frames
  of \<open>A\<close> exist already they are \<open>successCount = 1\<close>, \<open>cachedCount = 1\<close> and
  \<open>failCount = 1\<close>; and two videos of one name in one batch are both extracted.
\<close>

theorem extraction_failure_is_isolated:
  assumes "mkdirFaults w = (\<lambda>_. 0)" and "1 \<le> c" and "length videos \<le> fuel"
  shows "\<exists>t w'. processVideosParallel fuel env videos out opts c w = Returned (t, w') \<and>
           map resultVideo (results t) = videos \<and>
           list_all2 (outcomeOf env out opts) (results t) videos \<and>
           map cached (take c (results t)) = map (cacheHit env out opts w) (take c videos) \<and>
           (distinct (map (outputDirOf env out) videos) \<longrightarrow>
              map cached (results t) = map (cacheHit env out opts w) videos) \<and>
           successCount t = length (filter (\<lambda>r. success r \<and> \<not> cached r) (results t)) \<and>
           cachedCount t = length (filter cached (results t)) \<and>
           failCount t = length (filter (\<lambda>r. \<not> success r) (results t)) \<and>
           successCount t + cachedCount t + failCount t = length videos"
proof -
  from processVideosParallel_no_fault [OF assms, of env out opts]
  obtain t w' where
    r: "processVideosParallel fuel env videos out opts c w = Returned (t, w')"
    and t: "t = foldl tally initialTotals (results t)"
    and o: "list_all2 (outcomeOf env out opts) (results t) videos"
    and f: "map cached (take c (results t)) = map (cacheHit env out opts w) (take c videos)"
    and d: "distinct (map (outputDirOf env out) videos) \<longrightarrow>
              map cached (results t) = map (cacheHit env out opts w) videos"
    by (elim exE conjE) (rule that)
  let ?rs = "results t"
  have s: "successCount t = length (filter (\<lambda>r. success r \<and> \<not> cached r) ?rs)"
    and k: "cachedCount t = length (filter cached ?rs)"
    and n: "failCount t = length (filter (\<lambda>r. \<not> success r) ?rs)"
    by (subst t, simp add: foldl_tally_counts initialTotals_def)+
  from o have len: "length ?rs = length videos" by (rule list_all2_lengthD)
  have total: "successCount t + cachedCount t + failCount t = length videos"
    using success_cached_split [of ?rs] s k n len by simp
  have "list_all2 (\<lambda>r v. resultVideo r = v) ?rs videos"
    by (rule list_all2_mono [OF o]) (simp add: outcomeOf_def)
  then have v: "map resultVideo ?rs = videos"
    by (induction rule: list_all2_induct) simp_all
  show ?thesis
    by (intro exI [of _ t] exI [of _ w'] conjI) (rule r v o f d s k n total)+
qed

theorem extraction_failure_is_isolated_witness:
  "mkdirFaults freshWorld = (\<lambda>_. 0) \<and> mkdirFaults extractedWorld = (\<lambda>_. 0) \<and>
   (1::nat) \<le> 2 \<and> length [videoA, videoB, videoC] \<le> 3 \<and>
   distinct (map (outputDirOf exampleEnv (lit ''/out'')) [videoA, videoB, videoC]) \<and>
   map_option
     (\<lambda>(t, w). (map cached (results t), map success (results t),
        successCount t, cachedCount t, failCount t))
     (returned (processVideosParallel 3 exampleEnv [videoA, videoB, videoC] (lit ''/out'')
        exampleOptions 2 freshWorld)) =
     Some ([False, False, False], [True, False, True], 2, 0, 1) \<and>
   map_option
     (\<lambda>(t, w). (map cached (results t), map success (results t),
        successCount t, cachedCount t, failCount t))
     (returned (processVideosParallel 3 exampleEnv [videoA, videoB, videoC] (lit ''/out'')
        exampleOptions 2 extractedWorld)) =
     Some ([True, False, False], [True, False, True], 1, 1, 1) \<and>
   length [videoA, videoA2] \<le> 2 \<and>
   map_option
     (\<lambda>(t, w). (map cached (results t), map success (results t),
        successCount t, cachedCount t, failCount t))
     (returned (processVideosParallel 2 exampleEnv [videoA, videoA2] (lit ''/out'')
        exampleOptions 2 freshWorld)) =
     Some ([False, False], [True, True], 2, 0, 0)"
proof -
  let ?vs = "[videoA, videoB, videoC]"
  let ?run = "\<lambda>w. processVideosParallel 3 exampleEnv ?vs (lit ''/out'') exampleOptions 2 w"
  let ?view = "\<lambda>(t, w). (map cached (results t), map success (results t),
        successCount t, cachedCount t, failCount t)"
  have h1: "mkdirFaults freshWorld = (\<lambda>_. 0)" by (simp add: freshWorld_def)
  have h1': "mkdirFaults extractedWorld = (\<lambda>_. 0)" by (simp add: extractedWorld_def)
  have h2: "(1::nat) \<le> 2" by simp
  have h3: "length ?vs \<le> 3" by simp
  have fresh: "map_option ?view (returned (?run freshWorld)) =
      Some ([False, False, False], [True, False, True], 2, 0, 1)"
  proof -
    from extraction_failure_is_isolated [OF h1 h2 h3, of exampleEnv "lit ''/out''" exampleOptions]
    obtain t w' where r: "?run freshWorld = Returned (t, w')"
      and o: "list_all2 (outcomeOf exampleEnv (lit ''/out'') exampleOptions) (results t) ?vs"
      and d: "distinct (map (outputDirOf exampleEnv (lit ''/out'')) ?vs) \<longrightarrow>
                map cached (results t) =
                map (cacheHit exampleEnv (lit ''/out'') exampleOptions freshWorld) ?vs"
      and s: "successCount t = length (filter (\<lambda>r. success r \<and> \<not> cached r) (results t))"
      and k: "cachedCount t = length (filter cached (results t))"
      and n: "failCount t = length (filter (\<lambda>r. \<not> success r) (results t))"
      by (elim exE conjE) (rule that)
    from three_outcomes [OF o] obtain ra rb rc where rs: "results t = [ra, rb, rc]"
      and oa: "outcomeOf exampleEnv (lit ''/out'') exampleOptions ra videoA"
      and ob: "outcomeOf exampleEnv (lit ''/out'') exampleOptions rb videoB"
      and oc: "outcomeOf exampleEnv (lit ''/out'') exampleOptions rc videoC"
      by (elim exE conjE) (rule that)
    from d example_distinct example_hits(1) rs
    have c: "\<not> cached ra" "\<not> cached rb" "\<not> cached rc" by simp_all
    with oa ob oc example_extracts
    have "success ra" "\<not> success rb" "success rc" by (simp_all add: outcomeOf_def)
    with c r rs s k n show ?thesis by simp
  qed
  have rerun: "map_option ?view (returned (?run extractedWorld)) =
      Some ([True, False, False], [True, False, True], 1, 1, 1)"
  proof -
    from extraction_failure_is_isolated [OF h1' h2 h3, of exampleEnv "lit ''/out''" exampleOptions]
    obtain t w' where r: "?run extractedWorld = Returned (t, w')"
      and o: "list_all2 (outcomeOf exampleEnv (lit ''/out'') exampleOptions) (results t) ?vs"
      and d: "distinct (map (outputDirOf exampleEnv (lit ''/out'')) ?vs) \<longrightarrow>
                map cached (results t) =
                map (cacheHit exampleEnv (lit ''/out'') exampleOptions extractedWorld) ?vs"
      and s: "successCount t = length (filter (\<lambda>r. success r \<and> \<not> cached r) (results t))"
      and k: "cachedCount t = length (filter cached (results t))"
      and n: "failCount t = length (filter (\<lambda>r. \<not> success r) (results t))"
      by (elim exE conjE) (rule that)
    from three_outcomes [OF o] obtain ra rb rc where rs: "results t = [ra, rb, rc]"
      and oa: "outcomeOf exampleEnv (lit ''/out'') exampleOptions ra videoA"
      and ob: "outcomeOf exampleEnv (lit ''/out'') exampleOptions rb videoB"
      and oc: "outcomeOf exampleEnv (lit ''/out'') exampleOptions rc videoC"
      by (elim exE conjE) (rule that)
    from d example_distinct example_hits(2) rs
    have c: "cached ra" "\<not> cached rb" "\<not> cached rc" by simp_all
    with ob oc example_extracts cached_success [of ra]
    have "success ra" "\<not> success rb" "success rc" by (simp_all add: outcomeOf_def)
    with c r rs s k n show ?thesis by simp
  qed
  have h4: "length [videoA, videoA2] \<le> 2" by simp
  have shared: "map_option ?view
      (returned (processVideosParallel 2 exampleEnv [videoA, videoA2] (lit ''/out'')
         exampleOptions 2 freshWorld)) = Some ([False, False], [True, True], 2, 0, 0)"
  proof -
    from extraction_failure_is_isolated [OF h1 h2 h4, of exampleEnv "lit ''/out''" exampleOptions]
    obtain t w' where r: "processVideosParallel 2 exampleEnv [videoA, videoA2] (lit ''/out'')
         exampleOptions 2 freshWorld = Returned (t, w')"
      and o: "list_all2 (outcomeOf exampleEnv (lit ''/out'') exampleOptions) (results t)
                [videoA, videoA2]"
      and f: "map cached (take 2 (results t)) =
                map (cacheHit exampleEnv (lit ''/out'') exampleOptions freshWorld)
                  (take 2 [videoA, videoA2])"
      and s: "successCount t = length (filter (\<lambda>r. success r \<and> \<not> cached r) (results t))"
      and k: "cachedCount t = length (filter cached (results t))"
      and n: "failCount t = length (filter (\<lambda>r. \<not> success r) (results t))"
      by (elim exE conjE) (rule that)
    from two_outcomes [OF o] obtain ra rb where rs: "results t = [ra, rb]"
      and oa: "outcomeOf exampleEnv (lit ''/out'') exampleOptions ra videoA"
      and ob: "outcomeOf exampleEnv (lit ''/out'') exampleOptions rb videoA2"
      by (elim exE conjE) (rule that)
    from f example_shared(1) rs have c: "\<not> cached ra" "\<not> cached rb" by simp_all
    with oa ob example_extracts(1) example_shared(2)
    have "success ra" "success rb" by (simp_all add: outcomeOf_def)
    with c r rs s k n show ?thesis by simp
  qed
  from h1 h1' h2 h3 example_distinct fresh rerun h4 shared show ?thesis by (intro conjI)
qed

subsection \<open>Running totals\<close>

lemma runningTotals_extend:
  assumes "j \<le> k"
  shows "runningTotals rs k = foldl tally (runningTotals rs j) (drop j (take k rs))"
proof -
  have "take k rs = take j (take k rs) @ drop j (take k rs)"
    by (rule append_take_drop_id [symmetric])
  also have "take j (take k rs) = take j rs" using assms by (simp add: min_def)
  finally have "take k rs = take j rs @ drop j (take k rs)" .
  then have "foldl tally initialTotals (take k rs) =
      foldl tally initialTotals (take j rs @ drop j (take k rs))" by simp
  then show ?thesis by (simp add: runningTotals_def)
qed

lemma runningTotals_step:
  "k < length rs \<Longrightarrow> runningTotals rs (Suc k) = tally (runningTotals rs k) (rs ! k)"
  by (simp add: runningTotals_def take_Suc_conv_app_nth)

lemma runningTotals_sum:
  assumes "k \<le> length rs"
  shows "successCount (runningTotals rs k) + cachedCount (runningTotals rs k) +
           failCount (runningTotals rs k) = k"
    and "completed (runningTotals rs k) = k"
  using assms success_cached_split [of "take k rs"]
  by (simp_all add: runningTotals_def foldl_tally_counts initialTotals_def)

lemma tally_exactly_one:
  "(successCount (tally t r), cachedCount (tally t r), failCount (tally t r)) \<in>
     {(successCount t + 1, cachedCount t, failCount t),
      (successCount t, cachedCount t + 1, failCount t),
      (successCount t, cachedCount t, failCount t + 1)}"
  by (cases r) (simp_all add: Let_def)

text \<open>
  C7. In a run of the batch scheduler that returns the totals \<open>t\<close>, the totals
  after \<open>k\<close> counted outcomes are \<open>runningTotals (results t) k\<close>, and the last of
  them are \<open>t\<close>. From \<open>j\<close> to \<open>k \<ge> j\<close> outcomes none of \<open>successCount\<close>,
  \<open>cachedCount\<close>, \<open>failCount\<close> and \<open>totalFrames\<close> decreases; after \<open>k\<close>
  outcomes the first three add up to \<open>k\<close>; and each outcome adds one to exactly one
  of the three.
\<close>

theorem batch_totals_invariant:
  assumes "processVideosParallel fuel env videos out opts c w = Returned (t, w')"
    and "j \<le> k" and "k \<le> length (results t)"
  shows "runningTotals (results t) (length (results t)) = t \<and>
         successCount (runningTotals (results t) j) \<le> successCount (runningTotals (results t) k) \<and>
         cachedCount (runningTotals (results t) j) \<le> cachedCount (runningTotals (results t) k) \<and>
         failCount (runningTotals (results t) j) \<le> failCount (runningTotals (results t) k) \<and>
         totalFrames (runningTotals (results t) j) \<le> totalFrames (runningTotals (results t) k) \<and>
         successCount (runningTotals (results t) k) + cachedCount (runningTotals (results t) k) +
           failCount (runningTotals (results t) k) = k \<and>
         completed (runningTotals (results t) k) = k \<and>
         (k < length (results t) \<longrightarrow>
            runningTotals (results t) (Suc k) =
              tally (runningTotals (results t) k) (results t ! k) \<and>
            (successCount (runningTotals (results t) (Suc k)),
             cachedCount (runningTotals (results t) (Suc k)),
             failCount (runningTotals (results t) (Suc k))) \<in>
              {(successCount (runningTotals (results t) k) + 1,
                cachedCount (runningTotals (results t) k), failCount (runningTotals (results t) k)),
               (successCount (runningTotals (results t) k),
                cachedCount (runningTotals (results t) k) + 1, failCount (runningTotals (results t) k)),
               (successCount (runningTotals (results t) k),
                cachedCount (runningTotals (results t) k), failCount (runningTotals (results t) k) + 1)})"
proof -
  let ?rs = "results t"
  from assms(1) batchLoop_returns_fold [of fuel env videos out opts c 0 initialTotals w t w']
  obtain rs where t: "t = foldl tally initialTotals rs"
    by (auto simp: processVideosParallel_def)
  then have "?rs = rs" by (simp add: foldl_tally_counts initialTotals_def)
  with t have final: "runningTotals ?rs (length ?rs) = t" by (simp add: runningTotals_def)
  note ext = runningTotals_extend [OF assms(2), of ?rs]
  have mono: "successCount (runningTotals ?rs j) \<le> successCount (runningTotals ?rs k)"
    "cachedCount (runningTotals ?rs j) \<le> cachedCount (runningTotals ?rs k)"
    "failCount (runningTotals ?rs j) \<le> failCount (runningTotals ?rs k)"
    "totalFrames (runningTotals ?rs j) \<le> totalFrames (runningTotals ?rs k)"
    by (subst ext, simp add: foldl_tally_counts)+
  have step: "k < length ?rs \<longrightarrow>
            runningTotals ?rs (Suc k) = tally (runningTotals ?rs k) (?rs ! k) \<and>
            (successCount (runningTotals ?rs (Suc k)), cachedCount (runningTotals ?rs (Suc k)),
             failCount (runningTotals ?rs (Suc k))) \<in>
              {(successCount (runningTotals ?rs k) + 1,
                cachedCount (runningTotals ?rs k), failCount (runningTotals ?rs k)),
               (successCount (runningTotals ?rs k),
                cachedCount (runningTotals ?rs k) + 1, failCount (runningTotals ?rs k)),
               (successCount (runningTotals ?rs k),
                cachedCount (runningTotals ?rs k), failCount (runningTotals ?rs k) + 1)}"
  proof
    assume "k < length ?rs"
    from runningTotals_step [OF this] tally_exactly_one [of "runningTotals ?rs k" "?rs ! k"]
    show "runningTotals ?rs (Suc k) = tally (runningTotals ?rs k) (?rs ! k) \<and>
            (successCount (runningTotals ?rs (Suc k)), cachedCount (runningTotals ?rs (Suc k)),
             failCount (runningTotals ?rs (Suc k))) \<in>
              {(successCount (runningTotals ?rs k) + 1,
                cachedCount (runningTotals ?rs k), failCount (runningTotals ?rs k)),
               (successCount (runningTotals ?rs k),
                cachedCount (runningTotals ?rs k) + 1, failCount (runningTotals ?rs k)),
               (successCount (runningTotals ?rs k),
                cachedCount (runningTotals ?rs k), failCount (runningTotals ?rs k) + 1)}"
      by simp
  qed
  from final mono runningTotals_sum [OF assms(3)] step show ?thesis
    by (intro conjI)
qed

lemma example_run:
  "\<exists>t w'. processVideosParallel 3 exampleEnv [videoA, videoB, videoC] (lit ''/out'')
             exampleOptions 2 freshWorld = Returned (t, w') \<and>
           length (results t) = 3"
proof -
  have h1: "mkdirFaults freshWorld = (\<lambda>_. 0)" by (simp add: freshWorld_def)
  have h2: "(1::nat) \<le> 2" by simp
  have h3: "length [videoA, videoB, videoC] \<le> 3" by simp
  from processVideosParallel_no_fault [OF h1 h2 h3, of exampleEnv "lit ''/out''" exampleOptions]
  obtain t w' where
    r: "processVideosParallel 3 exampleEnv [videoA, videoB, videoC] (lit ''/out'')
             exampleOptions 2 freshWorld = Returned (t, w')"
    and o: "list_all2 (outcomeOf exampleEnv (lit ''/out'') exampleOptions) (results t)
              [videoA, videoB, videoC]"
    by (elim exE conjE) (rule that)
  from list_all2_lengthD [OF o] have "length (results t) = 3" by simp
  with r show ?thesis by blast
qed

theorem batch_totals_invariant_witness:
  "(case returned (processVideosParallel 3 exampleEnv [videoA, videoB, videoC] (lit ''/out'')
             exampleOptions 2 freshWorld) of
      None \<Rightarrow> False
    | Some (t, w') \<Rightarrow>
        (1::nat) \<le> 2 \<and> 2 \<le> length (results t) \<and>
        runningTotals (results t) (length (results t)) = t \<and>
        successCount (runningTotals (results t) 1) \<le> successCount (runningTotals (results t) 2) \<and>
        successCount (runningTotals (results t) 2) + cachedCount (runningTotals (results t) 2) +
          failCount (runningTotals (results t) 2) = 2)"
proof -
  from example_run obtain t w' where
    r: "processVideosParallel 3 exampleEnv [videoA, videoB, videoC] (lit ''/out'')
             exampleOptions 2 freshWorld = Returned (t, w')"
    and l: "length (results t) = 3" by blast
  have jk: "(1::nat) \<le> 2" by simp
  from l have k: "2 \<le> length (results t)" by simp
  from batch_totals_invariant [OF r jk k] r l show ?thesis by simp
qed

section \<open>The staggered start\<close>

text \<open>
  In a run without failures of the directory creation the waits are those of the
  outcomes that are not cached, each of 100 ms times the index of its video in the
  whole list, whatever the concurrency.
\<close>

lemma stagger_waits_follow_list_index:
  assumes "mkdirFaults w = (\<lambda>_. 0)" and "1 \<le> c" and "length videos \<le> fuel"
  shows "\<exists>t w'. processVideosParallel fuel env videos out opts c w = Returned (t, w') \<and>
           length (results t) = length videos \<and>
           sleeps (trace w') = sleeps (trace w) @ staggerWaits 0 (results t)"
proof -
  from processVideosParallel_no_fault [OF assms, of env out opts]
  obtain t w' where
    r: "processVideosParallel fuel env videos out opts c w = Returned (t, w')"
    and o: "list_all2 (outcomeOf env out opts) (results t) videos"
    and s: "sleeps (trace w') = sleeps (trace w) @ staggerWaits 0 (results t)"
    by (elim exE conjE) (rule that)
  from o have l: "length (results t) = length videos" by (rule list_all2_lengthD)
  show ?thesis
    by (intro exI [of _ t] exI [of _ w'] conjI) (rule r l s)+
qed

text \<open>
  C9 (the code departs from the claim). The claim: the wait before the extraction
  of an item is 100 ms times the index of the item within its batch, so that the
  first item of every batch starts at once. The scheduler calls
  \<open>processSingleVideo(video, i + batchIndex, ...)\<close> and the wait is
  \<open>100 * index\<close>, with the index of the video in the whole list. The comment on
  the wait calls it a small delay against races of parallel writes, yet it grows
  with the length of the list and is paid with one video per batch too. With three
  videos and a concurrency of 2 the third video is the only item of the second
  batch and waits 200 ms before \<open>ffprobe\<close> runs, not 0; where the frames of \<open>A\<close>
  exist already, \<open>B\<close> and \<open>C\<close> wait 100 and 200 ms; and with a concurrency of 1
  the waits are 0, 100 and 200 ms, where the claim gives 0 each time.
\<close>

theorem stagger_delay_grows_with_list_index:
  "js_slice [videoA, videoB, videoC] 2 (int (min (2 + 2) (length [videoA, videoB, videoC]))) =
     [videoC] \<and>
   map_option (\<lambda>(t, w'). trace w')
     (returned (processVideosParallel 2 exampleEnv [videoA, videoB, videoC] (lit ''/out'')
        exampleOptions 2 freshWorld)) =
     Some [Mkdir (lit ''/out/A''), Mkdir (lit ''/out/B''),
           Slept 0, Ffprobe (lit ''/in/A.mp4''), Ffmpeg (lit ''/in/A.mp4'') (lit ''/out/A''),
           Slept 100, Ffprobe (lit ''/in/B.mp4''), Ffmpeg (lit ''/in/B.mp4'') (lit ''/out/B''),
           Mkdir (lit ''/out/C''),
           Slept 200, Ffprobe (lit ''/in/C.mp4''), Ffmpeg (lit ''/in/C.mp4'') (lit ''/out/C'')] \<and>
   map_option (\<lambda>(t, w'). (map cached (results t), trace w'))
     (returned (processVideosParallel 2 exampleEnv [videoA, videoB, videoC] (lit ''/out'')
        exampleOptions 2 extractedWorld)) =
     Some ([True, False, False],
       [Mkdir (lit ''/out/B''),
        Slept 100, Ffprobe (lit ''/in/B.mp4''), Ffmpeg (lit ''/in/B.mp4'') (lit ''/out/B''),
        Mkdir (lit ''/out/C''),
        Slept 200, Ffprobe (lit ''/in/C.mp4''), Ffmpeg (lit ''/in/C.mp4'') (lit ''/out/C'')]) \<and>
   map_option (\<lambda>(t, w'). sleeps (trace w'))
     (returned (processVideosParallel 3 exampleEnv [videoA, videoB, videoC] (lit ''/out'')
        exampleOptions 1 freshWorld)) = Some [0, 100, 200]"
proof (intro conjI)
  show "js_slice [videoA, videoB, videoC] 2
      (int (min (2 + 2) (length [videoA, videoB, videoC]))) = [videoC]"
    by (simp add: js_slice_def)
  show "map_option (\<lambda>(t, w'). trace w')
     (returned (processVideosParallel 2 exampleEnv [videoA, videoB, videoC] (lit ''/out'')
        exampleOptions 2 freshWorld)) =
     Some [Mkdir (lit ''/out/A''), Mkdir (lit ''/out/B''),
           Slept 0, Ffprobe (lit ''/in/A.mp4''), Ffmpeg (lit ''/in/A.mp4'') (lit ''/out/A''),
           Slept 100, Ffprobe (lit ''/in/B.mp4''), Ffmpeg (lit ''/in/B.mp4'') (lit ''/out/B''),
           Mkdir (lit ''/out/C''),
           Slept 200, Ffprobe (lit ''/in/C.mp4''), Ffmpeg (lit ''/in/C.mp4'') (lit ''/out/C'')]"
    by (simp add: run_eval)
  show "map_option (\<lambda>(t, w'). (map cached (results t), trace w'))
     (returned (processVideosParallel 2 exampleEnv [videoA, videoB, videoC] (lit ''/out'')
        exampleOptions 2 extractedWorld)) =
     Some ([True, False, False],
       [Mkdir (lit ''/out/B''),
        Slept 100, Ffprobe (lit ''/in/B.mp4''), Ffmpeg (lit ''/in/B.mp4'') (lit ''/out/B''),
        Mkdir (lit ''/out/C''),
        Slept 200, Ffprobe (lit ''/in/C.mp4''), Ffmpeg (lit ''/in/C.mp4'') (lit ''/out/C'')])"
    by (simp add: run_eval)
  show "map_option (\<lambda>(t, w'). sleeps (trace w'))
     (returned (processVideosParallel 3 exampleEnv [videoA, videoB, videoC] (lit ''/out'')
        exampleOptions 1 freshWorld)) = Some [0, 100, 200]"
    by (simp add: run_eval)
qed

section \<open>Failure of the directory creation\<close>

lemma elsewhere_refl: "elsewhere D w w"
  by (simp add: elsewhere_def)

lemma elsewhere_trans: "elsewhere D w w1 \<Longrightarrow> elsewhere D w1 w2 \<Longrightarrow> elsewhere D w w2"
  by (simp add: elsewhere_def)

lemma elsewhere_mono: "elsewhere D w w1 \<Longrightarrow> D \<subseteq> D' \<Longrightarrow> elsewhere D' w w1"
  by (auto simp: elsewhere_def)

lemma mkdirSync_elsewhere:
  "mkdirSync d w = Inr w1 \<Longrightarrow> elsewhere {d} w w1"
  "mkdirSync d w = Inl (msg, w1) \<Longrightarrow> elsewhere {d} w w1 \<and> msg = lit ''EIO''"
  by (auto simp: mkdirSync_def logEvent_def Let_def elsewhere_def split: if_splits)

lemma sleep_elsewhere: "elsewhere D w (sleep ms w)"
  by (simp add: elsewhere_def sleep_def logEvent_def)

lemma elsewhere_step:
  assumes "elsewhere {d} w w'"
    and "case r of Inr w1 \<Rightarrow> elsewhere {d} w' w1
                 | Inl (e, w1) \<Rightarrow> elsewhere {d} w' w1 \<and> e = MkdirFailed m (lit ''EIO'')"
  shows "case r of Inr w1 \<Rightarrow> elsewhere {d} w w1
                 | Inl (e, w1) \<Rightarrow> elsewhere {d} w w1 \<and> e = MkdirFailed m (lit ''EIO'')"
  using assms by (auto split: sum.splits intro: elsewhere_trans)

lemma createOutputDir_elsewhere:
  "case createOutputDir m a d w of
     Inr w1 \<Rightarrow> elsewhere {d} w w1
   | Inl (e, w1) \<Rightarrow> elsewhere {d} w w1 \<and> e = MkdirFailed m (lit ''EIO'')"
proof (induction m a d w rule: createOutputDir.induct)
  case (1 m a d w)
  show ?case
  proof (cases "a \<le> m")
    case False
    then show ?thesis by (subst createOutputDir.simps) (simp add: elsewhere_refl)
  next
    case le: True
    show ?thesis
    proof (cases "existsSync w d")
      case True
      with le show ?thesis by (subst createOutputDir.simps) (simp add: elsewhere_refl)
    next
      case ne: False
      show ?thesis
      proof (cases "mkdirSync d w")
        case (Inr w')
        from mkdirSync_elsewhere(1) [OF Inr] have e: "elsewhere {d} w w'" .
        show ?thesis
        proof (cases "existsSync w' d")
          case True
          with le ne Inr e show ?thesis by (subst createOutputDir.simps) simp
        next
          case False
          from ne Inr have eq: "(if \<not> existsSync w d then mkdirSync d w else Inr w) = Inr w'"
            by simp
          from "1.IH"(2) [OF le eq False]
          have "case createOutputDir m (Suc a) d w' of
             Inr w1 \<Rightarrow> elsewhere {d} w' w1
           | Inl (e, w1) \<Rightarrow> elsewhere {d} w' w1 \<and> e = MkdirFailed m (lit ''EIO'')" by simp
          from elsewhere_step [OF e this] le ne Inr False show ?thesis
            by (subst createOutputDir.simps) simp
        qed
      next
        case (Inl x)
        then obtain msg w' where x: "mkdirSync d w = Inl (msg, w')" by (cases x) auto
        from mkdirSync_elsewhere(2) [OF x] have e: "elsewhere {d} w w'" and m: "msg = lit ''EIO''"
          by simp_all
        show ?thesis
        proof (cases "a = m")
          case True
          with le ne x e m show ?thesis by (subst createOutputDir.simps) simp
        next
          case False
          from ne x
          have eq: "(if \<not> existsSync w d then mkdirSync d w else Inr w) = Inl (msg, w')"
            by simp
          from "1.IH"(1) [OF le eq refl False]
          have "case createOutputDir m (Suc a) d (sleep (500 * a) w') of
             Inr w1 \<Rightarrow> elsewhere {d} (sleep (500 * a) w') w1
           | Inl (e, w1) \<Rightarrow> elsewhere {d} (sleep (500 * a) w') w1 \<and>
                              e = MkdirFailed m (lit ''EIO'')" by simp
          from elsewhere_step [OF elsewhere_trans [OF e sleep_elsewhere] this] le ne x False
          show ?thesis by (subst createOutputDir.simps) simp
        qed
      qed
    qed
  qed
qed

lemma createOutputDirStart_elsewhere:
  "case createOutputDirStart m a d w of
     Finished w1 \<Rightarrow> elsewhere {d} w w1
   | Caught k msg w1 \<Rightarrow> elsewhere {d} w w1 \<and> msg = lit ''EIO''"
proof (induction m a d w rule: createOutputDirStart.induct)
  case (1 m a d w)
  show ?case
  proof (cases "a \<le> m")
    case False
    then show ?thesis by (subst createOutputDirStart.simps) (simp add: elsewhere_refl)
  next
    case le: True
    show ?thesis
    proof (cases "existsSync w d")
      case True
      with le show ?thesis by (subst createOutputDirStart.simps) (simp add: elsewhere_refl)
    next
      case ne: False
      show ?thesis
      proof (cases "mkdirSync d w")
        case (Inr w')
        from mkdirSync_elsewhere(1) [OF Inr] have e: "elsewhere {d} w w'" .
        show ?thesis
        proof (cases "existsSync w' d")
          case True
          with le ne Inr e show ?thesis by (subst createOutputDirStart.simps) simp
        next
          case False
          from ne Inr have eq: "(if \<not> existsSync w d then mkdirSync d w else Inr w) = Inr w'"
            by simp
          from "1.IH" [OF le eq False]
          have "case createOutputDirStart m (Suc a) d w' of
             Finished w1 \<Rightarrow> elsewhere {d} w' w1
           | Caught k msg w1 \<Rightarrow> elsewhere {d} w' w1 \<and> msg = lit ''EIO''" .
          with e have "case createOutputDirStart m (Suc a) d w' of
             Finished w1 \<Rightarrow> elsewhere {d} w w1
           | Caught k msg w1 \<Rightarrow> elsewhere {d} w w1 \<and> msg = lit ''EIO''"
            by (auto split: attempted.splits intro: elsewhere_trans)
          with le ne Inr False show ?thesis
            by (subst createOutputDirStart.simps) simp
        qed
      next
        case (Inl x)
        then obtain msg w' where x: "mkdirSync d w = Inl (msg, w')" by (cases x) auto
        from mkdirSync_elsewhere(2) [OF x] le ne x show ?thesis
          by (subst createOutputDirStart.simps) simp
      qed
    qed
  qed
qed

lemma extractVideo_elsewhere: "elsewhere {d} w (snd (extractVideo env v i opts d t w))"
  by (simp add: elsewhere_def extractVideo_frame(1,3))

lemma startVideo_elsewhere:
  assumes "startVideo env v i tv out opts w = (s, w1)"
  shows "elsewhere {outputDirOf env out v} w w1" and "startedFor env out v s"
proof -
  let ?d = "outputDirOf env out v"
  have "elsewhere {?d} w w1 \<and> startedFor env out v s"
  proof (cases "\<not> force opts \<and> 0 < countExtractedFrames w ?d")
    case True
    with assms show ?thesis
      by (auto simp: startVideo_def outputDirOf_def Let_def startedFor_def elsewhere_refl)
  next
    case False
    from createOutputDirStart_elsewhere [where m = 3 and a = 1 and d = ?d and w = w] False assms show ?thesis
      by (auto simp: startVideo_def outputDirOf_def Let_def startedFor_def
          split: attempted.splits if_splits)
  qed
  then show "elsewhere {outputDirOf env out v} w w1" and "startedFor env out v s" by simp_all
qed

lemma resumeVideo_elsewhere:
  assumes "startedFor env out v s"
  shows "case resumeVideo env v i opts s w of
           Inr (r, w1) \<Rightarrow> elsewhere {outputDirOf env out v} w w1
         | Inl (e, w1) \<Rightarrow> elsewhere {outputDirOf env out v} w w1 \<and>
                            e = MkdirFailed 3 (lit ''EIO'')"
proof (cases s)
  case (Answered r)
  then show ?thesis by (simp add: resumeVideo_def elsewhere_refl)
next
  case (Rejected e)
  with assms show ?thesis by (simp add: resumeVideo_def elsewhere_refl startedFor_def)
next
  case (Staggering d t)
  with assms have d: "d = outputDirOf env out v" by (simp add: startedFor_def)
  obtain r w1 where x: "extractVideo env v i opts d t w = (r, w1)"
    by (cases "extractVideo env v i opts d t w")
  with extractVideo_elsewhere [where d = d and w = w and env = env and v = v and i = i
      and opts = opts and t = t]
  have "elsewhere {d} w w1" by simp
  with x Staggering d show ?thesis by (simp add: resumeVideo_def)
next
  case (Retrying d t k)
  with assms have d: "d = outputDirOf env out v" by (simp add: startedFor_def)
  let ?w = "sleep (500 * k) w"
  show ?thesis
  proof (cases "createOutputDir 3 (Suc k) d ?w")
    case (Inl x)
    then obtain e w1 where x: "createOutputDir 3 (Suc k) d ?w = Inl (e, w1)" by (cases x) auto
    with createOutputDir_elsewhere [where m = 3 and a = "Suc k" and d = d and w = ?w]
    have a: "elsewhere {d} ?w w1" and b: "e = MkdirFailed 3 (lit ''EIO'')" by simp_all
    from elsewhere_trans [OF sleep_elsewhere a] have "elsewhere {d} w w1" .
    with b x Retrying d show ?thesis by (simp add: resumeVideo_def)
  next
    case (Inr w1)
    with createOutputDir_elsewhere [where m = 3 and a = "Suc k" and d = d and w = ?w] have "elsewhere {d} ?w w1" by simp
    from elsewhere_trans [OF sleep_elsewhere this] have "elsewhere {d} w w1" .
    obtain r w2 where y: "extractVideo env v i opts d t w1 = (r, w2)"
      by (cases "extractVideo env v i opts d t w1")
    with elsewhere_trans [OF \<open>elsewhere {d} w w1\<close>
        extractVideo_elsewhere [where d = d and w = w1 and env = env and v = v and i = i
          and opts = opts and t = t]]
    have "elsewhere {d} w w2" by simp
    with y Inr Retrying d show ?thesis by (simp add: resumeVideo_def)
  qed
qed

lemma startVideo_doomed:
  assumes "dirs w (outputDirOf env out v) = None" "3 \<le> mkdirFaults w (outputDirOf env out v)"
  shows "\<exists>t w1. startVideo env v i tv out opts w = (Retrying (outputDirOf env out v) t 1, w1) \<and>
           dirs w1 (outputDirOf env out v) = None \<and> 2 \<le> mkdirFaults w1 (outputDirOf env out v)"
  using assms
  by (simp add: startVideo_def outputDirOf_def Let_def countExtractedFrames_def readdirSync_def
      createOutputDirStart_unfold existsSync_def mkdirSync_def logEvent_def)

lemma resumeVideo_doomed:
  assumes "dirs w d = None" "2 \<le> mkdirFaults w d"
  shows "\<exists>w'. resumeVideo env v i opts (Retrying d t 1) w = Inl (MkdirFailed 3 (lit ''EIO''), w')"
  using assms
  by (simp add: resumeVideo_def createOutputDir_unfold existsSync_def mkdirSync_def logEvent_def
      sleep_def)

lemma startBatch_elsewhere:
  "startBatch env vs i tv out opts w = (ss, w1) \<Longrightarrow>
     elsewhere (outputDirOf env out ` set vs) w w1 \<and> list_all2 (startedFor env out) vs ss"
proof (induction vs arbitrary: i w ss w1)
  case Nil
  then show ?case by (simp add: elsewhere_refl)
next
  case (Cons v vs)
  obtain s wa where a: "startVideo env v i tv out opts w = (s, wa)"
    by (cases "startVideo env v i tv out opts w")
  obtain ss' wb where b: "startBatch env vs (Suc i) tv out opts wa = (ss', wb)"
    by (cases "startBatch env vs (Suc i) tv out opts wa")
  from Cons.prems a b have eq: "ss = s # ss'" "w1 = wb" by simp_all
  from startVideo_elsewhere [OF a]
  have e1: "elsewhere {outputDirOf env out v} w wa" and s1: "startedFor env out v s" .
  from Cons.IH [OF b]
  have e2: "elsewhere (outputDirOf env out ` set vs) wa wb"
    and s2: "list_all2 (startedFor env out) vs ss'" by simp_all
  have "elsewhere (outputDirOf env out ` set (v # vs)) w wb"
    by (rule elsewhere_trans [OF elsewhere_mono [OF e1] elsewhere_mono [OF e2]]) auto
  with s1 s2 eq show ?case by simp
qed

lemma startBatch_doomed:
  assumes "distinct (map (outputDirOf env out) vs)" and "v \<in> set vs"
    and "dirs w (outputDirOf env out v) = None" and "3 \<le> mkdirFaults w (outputDirOf env out v)"
  shows "\<exists>ss w1 t. startBatch env vs i tv out opts w = (ss, w1) \<and>
           list_all2 (startedFor env out) vs ss \<and>
           (v, Retrying (outputDirOf env out v) t 1) \<in> set (zip vs ss) \<and>
           dirs w1 (outputDirOf env out v) = None \<and> 2 \<le> mkdirFaults w1 (outputDirOf env out v)"
  using assms
proof (induction vs arbitrary: i w)
  case Nil
  then show ?case by simp
next
  case (Cons u us)
  let ?d = "outputDirOf env out v"
  obtain s wa where a: "startVideo env u i tv out opts w = (s, wa)"
    by (cases "startVideo env u i tv out opts w")
  obtain ss' wb where b: "startBatch env us (Suc i) tv out opts wa = (ss', wb)"
    by (cases "startBatch env us (Suc i) tv out opts wa")
  from a b have run: "startBatch env (u # us) i tv out opts w = (s # ss', wb)" by simp
  from startVideo_elsewhere [OF a]
  have e1: "elsewhere {outputDirOf env out u} w wa" and s1: "startedFor env out u s" .
  from startBatch_elsewhere [OF b]
  have e2: "elsewhere (outputDirOf env out ` set us) wa wb"
    and s2: "list_all2 (startedFor env out) us ss'" by simp_all
  from s1 s2 have rel: "list_all2 (startedFor env out) (u # us) (s # ss')" by simp
  show ?case
  proof (cases "u = v")
    case True
    from startVideo_doomed [OF Cons.prems(3,4), where i = i and tv = tv and opts = opts] a True
    obtain t where s: "s = Retrying ?d t 1" and d: "dirs wa ?d = None"
      and f: "2 \<le> mkdirFaults wa ?d" by auto
    from Cons.prems(1) True have "?d \<notin> outputDirOf env out ` set us" by simp
    with e2 d f have d': "dirs wb ?d = None" and f': "2 \<le> mkdirFaults wb ?d"
      by (simp_all add: elsewhere_def)
    from s True have m: "(v, Retrying ?d t 1) \<in> set (zip (u # us) (s # ss'))" by simp
    show ?thesis
      by (intro exI [of _ "s # ss'"] exI [of _ wb] exI [of _ t] conjI) (rule run rel m d' f')+
  next
    case False
    with Cons.prems(2) have v: "v \<in> set us" by simp
    with Cons.prems(1) have "outputDirOf env out u \<noteq> ?d" by auto
    with e1 Cons.prems(3,4) have d: "dirs wa ?d = None" and f: "3 \<le> mkdirFaults wa ?d"
      by (simp_all add: elsewhere_def)
    from Cons.prems(1) have dist: "distinct (map (outputDirOf env out) us)" by simp
    from Cons.IH [OF dist v d f, of "Suc i"] b
    obtain t where m': "(v, Retrying ?d t 1) \<in> set (zip us ss')"
      and d': "dirs wb ?d = None" and f': "2 \<le> mkdirFaults wb ?d" by auto
    from m' have m: "(v, Retrying ?d t 1) \<in> set (zip (u # us) (s # ss'))" by simp
    show ?thesis
      by (intro exI [of _ "s # ss'"] exI [of _ wb] exI [of _ t] conjI) (rule run rel m d' f')+
  qed
qed

lemma resumeBatch_elsewhere:
  assumes "list_all2 (startedFor env out) vs ss"
  shows "\<exists>settled w'. resumeBatch env vs ss i opts w = (settled, w') \<and>
           elsewhere (outputDirOf env out ` set vs) w w' \<and>
           (\<forall>e. promiseAll settled = Inl e \<longrightarrow> e = MkdirFailed 3 (lit ''EIO''))"
  using assms
proof (induction vs ss arbitrary: i w rule: list_all2_induct)
  case Nil
  show ?case by (simp add: elsewhere_refl)
next
  case (Cons v vs s ss)
  note rv = resumeVideo_elsewhere [OF Cons.hyps(1), where i = i and opts = opts and w = w]
  show ?case
  proof (cases "resumeVideo env v i opts s w")
    case (Inl x)
    then obtain e wa where a: "resumeVideo env v i opts s w = Inl (e, wa)" by (cases x) auto
    with rv have e1: "elsewhere {outputDirOf env out v} w wa"
      and e: "e = MkdirFailed 3 (lit ''EIO'')" by simp_all
    from Cons.IH [of "Suc i" wa] obtain settled wb where
      b: "resumeBatch env vs ss (Suc i) opts wa = (settled, wb)"
      and e2: "elsewhere (outputDirOf env out ` set vs) wa wb" by blast
    have run: "resumeBatch env (v # vs) (s # ss) i opts w = (Inl e # settled, wb)"
      using a b by simp
    have fr: "elsewhere (outputDirOf env out ` set (v # vs)) w wb"
      by (rule elsewhere_trans [OF elsewhere_mono [OF e1] elsewhere_mono [OF e2]]) auto
    have pa: "\<forall>e'. promiseAll (Inl e # settled) = Inl e' \<longrightarrow> e' = MkdirFailed 3 (lit ''EIO'')"
      using e by simp
    show ?thesis
      by (intro exI [of _ "Inl e # settled"] exI [of _ wb] conjI) (rule run fr pa)+
  next
    case (Inr x)
    then obtain r wa where a: "resumeVideo env v i opts s w = Inr (r, wa)" by (cases x) auto
    with rv have e1: "elsewhere {outputDirOf env out v} w wa" by simp
    from Cons.IH [of "Suc i" wa] obtain settled wb where
      b: "resumeBatch env vs ss (Suc i) opts wa = (settled, wb)"
      and e2: "elsewhere (outputDirOf env out ` set vs) wa wb"
      and p2: "\<forall>e. promiseAll settled = Inl e \<longrightarrow> e = MkdirFailed 3 (lit ''EIO'')" by blast
    have run: "resumeBatch env (v # vs) (s # ss) i opts w = (Inr r # settled, wb)"
      using a b by simp
    have fr: "elsewhere (outputDirOf env out ` set (v # vs)) w wb"
      by (rule elsewhere_trans [OF elsewhere_mono [OF e1] elsewhere_mono [OF e2]]) auto
    have pa: "\<forall>e'. promiseAll (Inr r # settled) = Inl e' \<longrightarrow> e' = MkdirFailed 3 (lit ''EIO'')"
      using p2 by (simp split: sum.splits)
    show ?thesis
      by (intro exI [of _ "Inr r # settled"] exI [of _ wb] conjI) (rule run fr pa)+
  qed
qed

lemma resumeBatch_doomed:
  assumes "list_all2 (startedFor env out) vs ss"
    and "distinct (map (outputDirOf env out) vs)"
    and "(v, Retrying (outputDirOf env out v) t 1) \<in> set (zip vs ss)"
    and "dirs w (outputDirOf env out v) = None" and "2 \<le> mkdirFaults w (outputDirOf env out v)"
  shows "promiseAll (fst (resumeBatch env vs ss i opts w)) = Inl (MkdirFailed 3 (lit ''EIO''))"
  using assms
proof (induction vs ss arbitrary: i w rule: list_all2_induct)
  case Nil
  then show ?case by simp
next
  case (Cons u us s ss)
  let ?d = "outputDirOf env out v"
  note ru = resumeVideo_elsewhere [OF Cons.hyps(1), where i = i and opts = opts and w = w]
  show ?case
  proof (cases "u = v \<and> s = Retrying ?d t 1")
    case True
    from resumeVideo_doomed [OF Cons.prems(3,4), where env = env and v = v and i = i and opts = opts and t = t] True
    obtain wa where "resumeVideo env u i opts s w = Inl (MkdirFailed 3 (lit ''EIO''), wa)"
      by auto
    then show ?thesis by (simp split: prod.splits)
  next
    case False
    with Cons.prems(2) have m: "(v, Retrying ?d t 1) \<in> set (zip us ss)" by auto
    then have "v \<in> set us" by (rule set_zip_leftD)
    with Cons.prems(1) have ne: "outputDirOf env out u \<noteq> ?d" by auto
    from Cons.prems(1) have dist: "distinct (map (outputDirOf env out) us)" by simp
    show ?thesis
    proof (cases "resumeVideo env u i opts s w")
      case (Inl x)
      then obtain e wa where a: "resumeVideo env u i opts s w = Inl (e, wa)" by (cases x) auto
      with ru have "e = MkdirFailed 3 (lit ''EIO'')" by simp
      with a show ?thesis by (simp split: prod.splits)
    next
      case (Inr x)
      then obtain r wa where a: "resumeVideo env u i opts s w = Inr (r, wa)" by (cases x) auto
      with ru have "elsewhere {outputDirOf env out u} w wa" by simp
      with ne Cons.prems(3,4) have d: "dirs wa ?d = None" and f: "2 \<le> mkdirFaults wa ?d"
        by (simp_all add: elsewhere_def)
      obtain settled wb where b: "resumeBatch env us ss (Suc i) opts wa = (settled, wb)"
        by (cases "resumeBatch env us ss (Suc i) opts wa")
      from Cons.IH [OF dist m d f, of "Suc i"] b
      have "promiseAll settled = Inl (MkdirFailed 3 (lit ''EIO''))" by simp
      with a b show ?thesis by simp
    qed
  qed
qed

lemma runBatch_elsewhere:
  "case runBatch env vs i tv out opts w of
     Inr (rs, w') \<Rightarrow> elsewhere (outputDirOf env out ` set vs) w w'
   | Inl (e, w') \<Rightarrow> e = MkdirFailed 3 (lit ''EIO'')"
proof -
  obtain ss w1 where a: "startBatch env vs i tv out opts w = (ss, w1)"
    by (cases "startBatch env vs i tv out opts w")
  from startBatch_elsewhere [OF a]
  have e1: "elsewhere (outputDirOf env out ` set vs) w w1"
    and s1: "list_all2 (startedFor env out) vs ss" by simp_all
  from resumeBatch_elsewhere [OF s1, where i = i and opts = opts and w = w1] obtain settled w2 where
    b: "resumeBatch env vs ss i opts w1 = (settled, w2)"
    and e2: "elsewhere (outputDirOf env out ` set vs) w1 w2"
    and p: "\<forall>e. promiseAll settled = Inl e \<longrightarrow> e = MkdirFailed 3 (lit ''EIO'')" by blast
  from elsewhere_trans [OF e1 e2] p a b show ?thesis
    by (simp add: runBatch_def split: sum.splits)
qed

lemma runBatch_doomed:
  assumes "distinct (map (outputDirOf env out) vs)" and "v \<in> set vs"
    and "dirs w (outputDirOf env out v) = None" and "3 \<le> mkdirFaults w (outputDirOf env out v)"
  shows "\<exists>w'. runBatch env vs i tv out opts w = Inl (MkdirFailed 3 (lit ''EIO''), w')"
proof -
  from startBatch_doomed [OF assms, where i = i and tv = tv and opts = opts] obtain ss w1 t where
    a: "startBatch env vs i tv out opts w = (ss, w1)"
    and s: "list_all2 (startedFor env out) vs ss"
    and m: "(v, Retrying (outputDirOf env out v) t 1) \<in> set (zip vs ss)"
    and d: "dirs w1 (outputDirOf env out v) = None"
    and f: "2 \<le> mkdirFaults w1 (outputDirOf env out v)" by blast
  obtain settled w2 where b: "resumeBatch env vs ss i opts w1 = (settled, w2)"
    by (cases "resumeBatch env vs ss i opts w1")
  from resumeBatch_doomed [OF s assms(1) m d f, where i = i and opts = opts] b
  have "promiseAll settled = Inl (MkdirFailed 3 (lit ''EIO''))" by simp
  with a b show ?thesis by (simp add: runBatch_def)
qed

lemma batchLoop_doomed:
  assumes "distinct (map (outputDirOf env out) (drop i videos))" and "v \<in> set (drop i videos)"
    and "dirs w (outputDirOf env out v) = None" and "3 \<le> mkdirFaults w (outputDirOf env out v)"
    and "1 \<le> c" and "length videos - i \<le> fuel"
  shows "\<exists>w'. batchLoop fuel env videos out opts c i t w = Threw (MkdirFailed 3 (lit ''EIO'')) w'"
  using assms
proof (induction fuel arbitrary: i t w)
  case 0
  then show ?case by simp
next
  case (Suc fuel)
  let ?d = "outputDirOf env out v"
  let ?batch = "take c (drop i videos)"
  let ?rest = "drop (i + c) videos"
  from Suc.prems(2) have lt: "i < length videos" by (cases "i < length videos") simp_all
  have sl: "js_slice videos (int i) (int (min (i + c) (length videos))) = ?batch"
    using lt by (simp add: js_slice_nat)
  have split: "drop i videos = ?batch @ ?rest"
    by (metis add.commute append_take_drop_id drop_drop)
  from Suc.prems(1) have dist: "distinct (map (outputDirOf env out) (?batch @ ?rest))"
    by (simp only: split [symmetric])
  from Suc.prems(2) have "v \<in> set (?batch @ ?rest)" by (simp only: split [symmetric])
  then consider "v \<in> set ?batch" | "v \<in> set ?rest" by auto
  then show ?case
  proof cases
    case 1
    from dist have "distinct (map (outputDirOf env out) ?batch)" by simp
    from runBatch_doomed [OF this 1 Suc.prems(3,4), where i = i and tv = "length videos" and opts = opts]
    show ?thesis using lt sl by (auto simp: Let_def)
  next
    case 2
    note rb = runBatch_elsewhere [where env = env and vs = ?batch and i = i and tv = "length videos" and out = out and opts = opts and w = w]
    show ?thesis
    proof (cases "runBatch env ?batch i (length videos) out opts w")
      case (Inl x)
      then obtain e w1 where a: "runBatch env ?batch i (length videos) out opts w = Inl (e, w1)"
        by (cases x) auto
      with rb have "e = MkdirFailed 3 (lit ''EIO'')" by simp
      with a lt sl show ?thesis by (simp add: Let_def)
    next
      case (Inr x)
      then obtain rs w1 where a: "runBatch env ?batch i (length videos) out opts w = Inr (rs, w1)"
        by (cases x) auto
      with rb have e: "elsewhere (outputDirOf env out ` set ?batch) w w1" by simp
      from dist have "outputDirOf env out ` set ?batch \<inter> outputDirOf env out ` set ?rest = {}"
        by simp
      moreover from 2 have "?d \<in> outputDirOf env out ` set ?rest" by (rule imageI)
      ultimately have "?d \<notin> outputDirOf env out ` set ?batch" by blast
      with e Suc.prems(3,4) have d: "dirs w1 ?d = None" and f: "3 \<le> mkdirFaults w1 ?d"
        by (simp_all add: elsewhere_def)
      from dist have dr: "distinct (map (outputDirOf env out) ?rest)" by simp
      have fuel: "length videos - (i + c) \<le> fuel" using Suc.prems(5,6) lt by simp
      from Suc.IH [OF dr 2 d f Suc.prems(5) fuel, of "foldl tally t rs"] a lt sl
      show ?thesis by (simp add: Let_def)
    qed
  qed
qed

lemma failed_directory_rejects_run:
  assumes "distinct (map (outputDirOf env out) videos)" and "v \<in> set videos"
    and "dirs w (outputDirOf env out v) = None" and "3 \<le> mkdirFaults w (outputDirOf env out v)"
    and "1 \<le> c" and "length videos \<le> fuel"
  shows "\<exists>w'. processVideosParallel fuel env videos out opts c w =
           Threw (MkdirFailed 3 (lit ''EIO'')) w'"
proof -
  from assms(1,2,6) have a: "distinct (map (outputDirOf env out) (drop 0 videos))"
    "v \<in> set (drop 0 videos)" "length videos - 0 \<le> fuel" by simp_all
  from batchLoop_doomed [OF a(1,2) assms(3,4,5) a(3)] show ?thesis
    by (simp add: processVideosParallel_def)
qed

text \<open>
  C3 (the code departs from the claim). The claim: the creation of the output
  directory is attempted up to 3 times with waits that grow linearly, and when the
  attempts are used up the item gets a failure outcome and the batch goes on. The
  attempts and the waits of 500 and 1000 ms are there (\<open>createOutputDir_1\<close>,
  \<open>createOutputDir_2\<close>, \<open>createOutputDir_3\<close>). But the error of the third attempt
  is thrown from the \<open>catch\<close> block of the loop, outside the \<open>try\<close> that builds
  failure outcomes: the promise of \<open>processSingleVideo\<close> rejects, \<open>Promise.all\<close>
  rejects and \<open>processVideosParallel\<close> rejects without totals, whichever video of
  the run it is (\<open>failed_directory_rejects_run\<close>), where the README has it that
  failed videos do not stop batch processing. With three failing attempts on
  \<open>/out/B\<close>, the run over \<open>[A, B, C]\<close> in one batch of three rejects with
  \<open>Failed to create output directory after 3 attempts\<close> although \<open>A\<close> and \<open>C\<close>
  are extracted; with one video per batch it rejects after \<open>A\<close>, and \<open>C\<close> is
  never started.
\<close>

theorem directory_failure_rejects_run:
  "map_option (\<lambda>(e, w'). (e, trace w'))
     (thrown (processVideosParallel 1 exampleEnv [videoA, videoB, videoC] (lit ''/out'')
        exampleOptions 3 faultyWorld)) =
   Some (MkdirFailed 3 (lit ''EIO''),
     [Mkdir (lit ''/out/A''), Mkdir (lit ''/out/B''), Mkdir (lit ''/out/C''),
      Slept 0, Ffprobe (lit ''/in/A.mp4''), Ffmpeg (lit ''/in/A.mp4'') (lit ''/out/A''),
      Slept 500, Mkdir (lit ''/out/B''), Slept 1000, Mkdir (lit ''/out/B''),
      Slept 200, Ffprobe (lit ''/in/C.mp4''), Ffmpeg (lit ''/in/C.mp4'') (lit ''/out/C'')]) \<and>
   returned (processVideosParallel 1 exampleEnv [videoA, videoB, videoC] (lit ''/out'')
        exampleOptions 3 faultyWorld) = None \<and>
   map_option (\<lambda>(e, w'). (e, trace w'))
     (thrown (processVideosParallel 3 exampleEnv [videoA, videoB, videoC] (lit ''/out'')
        exampleOptions 1 faultyWorld)) =
   Some (MkdirFailed 3 (lit ''EIO''),
     [Mkdir (lit ''/out/A''),
      Slept 0, Ffprobe (lit ''/in/A.mp4''), Ffmpeg (lit ''/in/A.mp4'') (lit ''/out/A''),
      Mkdir (lit ''/out/B''), Slept 500, Mkdir (lit ''/out/B''), Slept 1000,
      Mkdir (lit ''/out/B'')])"
  by (simp add: run_eval)

section \<open>Properties of the downloader\<close>

lemma chunksOf_Nil: "chunksOf n [] = []"
  by (simp add: chunksOf.simps)

lemma chunksOf_step:
  "0 < n \<Longrightarrow> xs \<noteq> [] \<Longrightarrow> chunksOf n xs = take n xs # chunksOf n (drop n xs)"
  by (subst chunksOf.simps) simp

lemma concat_chunksOf: "0 < n \<Longrightarrow> concat (chunksOf n xs) = xs"
proof (induction n xs rule: chunksOf.induct)
  case (1 n xs)
  show ?case
  proof (cases "xs = []")
    case True
    then show ?thesis by (simp add: chunksOf_Nil)
  next
    case False
    with 1 show ?thesis by (simp add: chunksOf_step)
  qed
qed

lemma chunksOf_sizes:
  "0 < n \<Longrightarrow> b \<in> set (chunksOf n xs) \<Longrightarrow> b \<noteq> [] \<and> length b \<le> n"
proof (induction n xs rule: chunksOf.induct)
  case (1 n xs)
  show ?case
  proof (cases "xs = []")
    case True
    with "1.prems" show ?thesis by (simp add: chunksOf_Nil)
  next
    case False
    with 1 show ?thesis by (auto simp: chunksOf_step)
  qed
qed

lemma downloadLoop_chunks:
  assumes "0 < n" and "length urls - k \<le> fuel"
  shows "downloadLoop fuel env urls (int n) (int k) st =
           (chunksOf n (drop k urls),
            Returned (foldl (downloadOne env) st (drop k urls)))"
  using assms(2)
proof (induction fuel arbitrary: k st)
  case 0
  then show ?case by (simp add: chunksOf_Nil)
next
  case (Suc fuel)
  show ?case
  proof (cases "k < length urls")
    case False
    then show ?thesis by (simp add: chunksOf_Nil)
  next
    case True
    let ?batch = "take n (drop k urls)"
    have m: "min (int k + int n) (int (length urls)) = int (min (k + n) (length urls))"
      by simp
    have sl: "js_slice urls (int k) (min (int k + int n) (int (length urls))) = ?batch"
      unfolding m using True by (simp add: js_slice_nat)
    have fuel: "length urls - (k + n) \<le> fuel" using Suc.prems assms(1) True by simp
    have next_i: "int k + int n = int (k + n)" by simp
    have ne: "drop k urls \<noteq> []" using True by simp
    have d: "drop (k + n) urls = drop n (drop k urls)" by (simp add: add.commute)
    have f: "foldl (downloadOne env) (foldl (downloadOne env) st ?batch) (drop n (drop k urls)) =
             foldl (downloadOne env) st (drop k urls)"
      by (metis append_take_drop_id foldl_append)
    have step: "downloadLoop (Suc fuel) env urls (int n) (int k) st =
        (case downloadLoop fuel env urls (int n) (int (k + n))
                (foldl (downloadOne env) st ?batch) of
           (batches, r) \<Rightarrow> (?batch # batches, r))"
      using True sl by (simp add: Let_def next_i del: of_nat_add)
    from Suc.IH [OF fuel, of "foldl (downloadOne env) st ?batch"]
    have ih: "downloadLoop fuel env urls (int n) (int (k + n))
                (foldl (downloadOne env) st ?batch) =
              (chunksOf n (drop n (drop k urls)),
               Returned (foldl (downloadOne env) st (drop k urls)))"
      by (simp only: d f)
    show ?thesis
      by (simp only: step ih chunksOf_step [OF assms(1) ne] prod.case)
  qed
qed

lemma downloadLoop_never_ends:
  assumes "batchSize \<le> 0" and "i < int (length urls)"
  shows "snd (downloadLoop fuel env urls batchSize i st) = Running"
  using assms(2)
proof (induction fuel arbitrary: i st)
  case 0
  then show ?case by simp
next
  case (Suc fuel)
  from Suc.prems assms(1) have "i + batchSize < int (length urls)" by simp
  from Suc.IH [OF this] Suc.prems show ?case
    by (auto simp: Let_def split: prod.splits dest: arg_cong [where f = snd])
qed

text \<open>
  C10 (the code departs from the claim). The claim: for every requested concurrency
  the URLs are downloaded in batches of size \<open>min(c, 3)\<close>, so that at most 3
  downloads are dispatched together. The batch size is \<open>Math.min(concurrency, 3)\<close>
  and nothing keeps it positive: with \<open>--concurrency=-2\<close> the value
  \<open>parseInt('-2', 10) || 4\<close> is \<open>-2\<close>, the first batch is \<open>urls.slice(0, -2)\<close>,
  which for six URLs holds four of them, and the loop goes on with empty batches
  and never ends: whatever the fuel, the run is still going when it is used up.
\<close>

theorem negative_concurrency_exceeds_cap:
  "downloadConcurrency (lit ''-2'') = - 2 \<and>
   map length (fst (downloadAllVideos 3 exampleEnv sixUrls (downloadConcurrency (lit ''-2''))))
     = [4, 0, 0] \<and>
   (\<forall>fuel. snd (downloadAllVideos fuel exampleEnv sixUrls (downloadConcurrency (lit ''-2'')))
      = Running)"
proof -
  have c: "downloadConcurrency (lit ''-2'') = - 2"
    by (simp add: downloadConcurrency_def parse_eval)
  have len: "length sixUrls = 6" and ne: "sixUrls \<noteq> []" by (simp_all add: sixUrls_def)
  have s0: "length (js_slice sixUrls 0 (min (0 + - 2) (int (length sixUrls)))) = 4"
    by (simp add: js_slice_def len)
  have s1: "js_slice sixUrls (- 2) (min (- 2 + - 2) (int (length sixUrls))) = []"
    by (simp add: js_slice_def len)
  have s2: "js_slice sixUrls (- 4) (min (- 4 + - 2) (int (length sixUrls))) = []"
    by (simp add: js_slice_def len)
  have "downloadLoop (Suc (Suc (Suc 0))) exampleEnv sixUrls (- 2) 0 initialDownloads =
          ([js_slice sixUrls 0 (min (0 + - 2) (int (length sixUrls))), [], []], Running)"
    using s1 s2 by (simp add: Let_def len)
  then have "downloadAllVideos 3 exampleEnv sixUrls (- 2) =
          ([js_slice sixUrls 0 (min (0 + - 2) (int (length sixUrls))), [], []], Running)"
    using ne by (simp add: downloadAllVideos_def numeral_3_eq_3)
  moreover have "snd (downloadAllVideos fuel exampleEnv sixUrls (- 2)) = Running" for fuel
    using ne downloadLoop_never_ends [of "- 2" 0 sixUrls fuel exampleEnv initialDownloads]
    by (simp add: downloadAllVideos_def len)
  ultimately show ?thesis using c s0 by simp
qed

text \<open>
  For every requested concurrency \<open>c \<ge> 1\<close> the cap holds: \<open>downloadAllVideos\<close>
  partitions the list of URLs into consecutive batches of size \<open>min(c, 3)\<close>, the
  last one possibly shorter, so at most 3 downloads are dispatched together however
  large the concurrency is; and the loop ends.
\<close>

theorem download_batches_of_at_most_three:
  assumes "1 \<le> c" and "length urls \<le> fuel"
  shows "\<exists>st. downloadAllVideos fuel env urls c =
                (chunksOf (nat (min c 3)) urls, Returned st) \<and>
              concat (chunksOf (nat (min c 3)) urls) = urls \<and>
              (\<forall>b \<in> set (chunksOf (nat (min c 3)) urls).
                 b \<noteq> [] \<and> int (length b) \<le> min c 3 \<and> length b \<le> 3)"
proof -
  let ?n = "nat (min c 3)"
  from assms(1) have n: "0 < ?n" and i: "int ?n = min c 3" and le: "?n \<le> 3" by auto
  from assms(2) have "length urls - 0 \<le> fuel" by simp
  from downloadLoop_chunks [OF n this, of env initialDownloads]
  have loop: "downloadLoop fuel env urls (min c 3) 0 initialDownloads =
               (chunksOf ?n urls, Returned (foldl (downloadOne env) initialDownloads urls))"
    by (simp only: i drop_0 of_nat_0)
  have run: "downloadAllVideos fuel env urls c =
               (chunksOf ?n urls, Returned (foldl (downloadOne env) initialDownloads urls))"
  proof (cases "urls = []")
    case True
    then show ?thesis by (simp add: downloadAllVideos_def chunksOf_Nil)
  next
    case False
    then show ?thesis by (simp only: downloadAllVideos_def Let_def loop if_False)
  qed
  have sizes: "\<forall>b \<in> set (chunksOf ?n urls). b \<noteq> [] \<and> int (length b) \<le> min c 3 \<and> length b \<le> 3"
  proof
    fix b assume "b \<in> set (chunksOf ?n urls)"
    from chunksOf_sizes [OF n this] i le
    show "b \<noteq> [] \<and> int (length b) \<le> min c 3 \<and> length b \<le> 3" by linarith
  qed
  from run concat_chunksOf [OF n] sizes show ?thesis by blast
qed

theorem download_batches_of_at_most_three_witness:
  "(1::int) \<le> 8 \<and> length sixUrls \<le> 6 \<and>
   map length (fst (downloadAllVideos 6 exampleEnv sixUrls 8)) = [3, 3] \<and>
   concat (fst (downloadAllVideos 6 exampleEnv sixUrls 8)) = sixUrls \<and>
   snd (downloadAllVideos 6 exampleEnv sixUrls 8) \<noteq> Running"
proof -
  have h1: "(1::int) \<le> 8" by simp
  have h2: "length sixUrls \<le> 6" by (simp add: sixUrls_def)
  have n: "nat (min 8 3) = 3" by simp
  have ch: "map length (chunksOf 3 sixUrls) = [3, 3]"
    by (simp add: sixUrls_def chunksOf.simps [of 3])
  from download_batches_of_at_most_three [OF h1 h2, of exampleEnv] ch h2
  show ?thesis by (auto simp: n)
qed

section \<open>Properties of the upload orchestrator\<close>

lemma upload_files:
  "sort (map (path_join exampleEnv (lit ''/out/A''))
      (filter (\<lambda>f. endsWith f (lit ''.png''))
         [lit ''frame_000001.png'', lit ''frame_000002.png'', lit ''frame_000003.png''])) =
     [lit ''/out/A/frame_000001.png'', lit ''/out/A/frame_000002.png'',
      lit ''/out/A/frame_000003.png'']"
  by (simp add: exampleEnv_def joinPath_def endsWith_def lit_def)

lemma upload_batch:
  "uploadFilesBatch 1 exampleEnv
     [lit ''/out/A/frame_000001.png'', lit ''/out/A/frame_000002.png'',
      lit ''/out/A/frame_000003.png''] (lit ''folder'') 10 uploadWorld =
   Returned
     (\<lparr>uploadResults =
         [Uploaded (lit ''/out/A/frame_000001.png'') (lit ''id''),
          UploadFailed (lit ''/out/A/frame_000002.png'') (lit ''quota exceeded''),
          Uploaded (lit ''/out/A/frame_000003.png'') (lit ''id'')],
       uploadSuccessCount = 2, uploadFailCount = 1\<rparr>,
      uploadWorld\<lparr>trace :=
         [Upload (lit ''/out/A/frame_000001.png'') (lit ''folder''),
          Upload (lit ''/out/A/frame_000002.png'') (lit ''folder''),
          Upload (lit ''/out/A/frame_000003.png'') (lit ''folder'')]\<rparr>)"
proof -
  have sl: "js_slice [lit ''/out/A/frame_000001.png'', lit ''/out/A/frame_000002.png'',
      lit ''/out/A/frame_000003.png''] (int 0) (int (min (0 + 10) 3)) =
      [lit ''/out/A/frame_000001.png'', lit ''/out/A/frame_000002.png'',
      lit ''/out/A/frame_000003.png'']"
    by (simp add: js_slice_def)
  have ne: "lit ''/out/A/frame_000001.png'' \<noteq> lit ''/out/A/frame_000002.png''"
    "lit ''/out/A/frame_000003.png'' \<noteq> lit ''/out/A/frame_000002.png''"
    by (simp_all add: lit_def)
  have up: "uploadFile exampleEnv (lit ''/out/A/frame_000001.png'') (lit ''folder'') = Inr (lit ''id'')"
    "uploadFile exampleEnv (lit ''/out/A/frame_000002.png'') (lit ''folder'') = Inl (lit ''quota exceeded'')"
    "uploadFile exampleEnv (lit ''/out/A/frame_000003.png'') (lit ''folder'') = Inr (lit ''id'')"
    using ne by (simp_all add: exampleEnv_def)
  show ?thesis
    using sl
    by (simp add: uploadFilesBatch_def uploadOne_def up initialUploads_def logEvent_def
        uploadWorld_def Let_def)
qed

lemma example_paths:
  "path_dirname exampleEnv (lit ''/out/A/frame_000001.png'') = lit ''/out/A''"
  "path_dirname exampleEnv (lit ''/out/A/frame_000002.png'') = lit ''/out/A''"
  "path_dirname exampleEnv (lit ''/out/A/frame_000003.png'') = lit ''/out/A''"
  "path_basename exampleEnv (lit ''/out/A/frame_000001.png'') = lit ''frame_000001.png''"
  "path_basename exampleEnv (lit ''/out/A/frame_000002.png'') = lit ''frame_000002.png''"
  "path_basename exampleEnv (lit ''/out/A/frame_000003.png'') = lit ''frame_000003.png''"
  "path_basename exampleEnv (lit ''/out/A'') = lit ''A''"
  by (simp_all add: exampleEnv_def dirnameOf_def basenameOf_def lit_def)

lemma frame_names_differ:
  "lit ''frame_000001.png'' \<noteq> lit ''frame_000002.png''"
  "lit ''frame_000001.png'' \<noteq> lit ''frame_000003.png''"
  "lit ''frame_000002.png'' \<noteq> lit ''frame_000003.png''"
  by (simp_all add: lit_def)

lemma example_delete:
  assumes "dirs w (lit ''/out/A'') =
             Some [lit ''frame_000001.png'', lit ''frame_000002.png'', lit ''frame_000003.png'']"
    and "locked w = {}"
  shows "\<exists>w'. deleteFiles exampleEnv
           [lit ''/out/A/frame_000001.png'', lit ''/out/A/frame_000002.png'',
            lit ''/out/A/frame_000003.png''] 0 w = (3, w') \<and>
         dirs w' (lit ''/out/A'') = Some [] \<and>
         trace w' = trace w @ [Unlink (lit ''/out/A/frame_000001.png''),
           Unlink (lit ''/out/A/frame_000002.png''), Unlink (lit ''/out/A/frame_000003.png'')]"
  using assms frame_names_differ frame_names_differ [symmetric]
  by (simp add: unlinkSync_def example_paths logEvent_def Let_def)

text \<open>
  C8 (the code departs from the claim). The claim: with \<open>deleteAfterUpload\<close> set
  and at least one successful upload, exactly the files that were uploaded are
  deleted, and with 2 of 3 uploads succeeding the folder stays. The loop of
  \<open>uploadVideoFrames\<close> runs over all of \<open>files\<close>, not over the successful results:
  in the folder \<open>/out/A\<close> with three frames, where the upload of the second frame
  fails, the summary is \<open>uploaded: 2, failed: 1, deleted: 3\<close>, the frame that was
  not uploaded is deleted with the others, and the directory, empty by then, is
  removed.
\<close>

theorem failed_upload_is_deleted:
  "map_option (\<lambda>(s, w). (uploaded s, failed s, deleted s, dirs w (lit ''/out/A''), drop 3 (trace w)))
     (returned (uploadVideoFrames 1 exampleEnv (lit ''/out/A'') (lit ''root'') deletingUpload
        uploadWorld)) =
   Some (2, Some 1, 3, None,
         [Unlink (lit ''/out/A/frame_000001.png''), Unlink (lit ''/out/A/frame_000002.png''),
          Unlink (lit ''/out/A/frame_000003.png''), Rmdir (lit ''/out/A'')])"
proof -
  let ?files = "[lit ''/out/A/frame_000001.png'', lit ''/out/A/frame_000002.png'',
            lit ''/out/A/frame_000003.png'']"
  let ?w1 = "uploadWorld\<lparr>trace :=
         [Upload (lit ''/out/A/frame_000001.png'') (lit ''folder''),
          Upload (lit ''/out/A/frame_000002.png'') (lit ''folder''),
          Upload (lit ''/out/A/frame_000003.png'') (lit ''folder'')]\<rparr>"
  have d: "dirs ?w1 (lit ''/out/A'') =
             Some [lit ''frame_000001.png'', lit ''frame_000002.png'', lit ''frame_000003.png'']"
    and l: "locked ?w1 = {}"
    by (simp_all add: uploadWorld_def)
  from example_delete [OF d l] obtain w2 where
    gone: "deleteFiles exampleEnv ?files 0 ?w1 = (3, w2)"
    and d2: "dirs w2 (lit ''/out/A'') = Some []"
    and t2: "trace w2 = trace ?w1 @ [Unlink (lit ''/out/A/frame_000001.png''),
           Unlink (lit ''/out/A/frame_000002.png''), Unlink (lit ''/out/A/frame_000003.png'')]"
    by blast
  have rm: "dirs (removeEmptyDirectory (lit ''/out/A'') w2) (lit ''/out/A'') = None"
    "trace (removeEmptyDirectory (lit ''/out/A'') w2) = trace w2 @ [Rmdir (lit ''/out/A'')]"
    using d2 by (simp_all add: removeEmptyDirectory_def readdirSync_def rmdirSync_def logEvent_def)
  have entries: "readdirSync uploadWorld (lit ''/out/A'') =
      Some [lit ''frame_000001.png'', lit ''frame_000002.png'', lit ''frame_000003.png'']"
    by (simp add: readdirSync_def uploadWorld_def)
  have folder: "getOrCreateFolder exampleEnv (lit ''A'') (lit ''root'') = Inr (lit ''folder'')"
    by (simp add: exampleEnv_def)
  have "uploadVideoFrames 1 exampleEnv (lit ''/out/A'') (lit ''root'') deletingUpload uploadWorld =
      Returned (\<lparr>uploadOk = False, uploaded = 2, failed = Some 1, deleted = 3,
                 folderId = Some (lit ''folder''), folderName = Some (lit ''A'')\<rparr>,
                removeEmptyDirectory (lit ''/out/A'') w2)"
    apply (simp only: uploadVideoFrames_def example_paths entries option.case Let_def
        upload_files)
    apply (simp add: folder upload_batch [unfolded One_nat_def] deletingUpload_def gone
        del: deleteFiles.simps)
    done
  with rm t2 show ?thesis by simp
qed

end
